theory Spec2Isabelle
  imports Complex_Main "HOL-Library.AList"
begin

section \<open>Numbers and setting values\<close>

text \<open>
  The server is TypeScript. A JavaScript number is modelled as a rational when it is
  finite, with the three non-finite values beside it. Clock readings (\<open>Date.now()\<close>),
  scores and round numbers are whole numbers and are modelled as \<open>int\<close>; values derived
  from the subreddit settings may be fractional and are modelled as \<open>rat\<close> (arithmetic on
  them is exact here).
\<close>

datatype jsnum = Fin rat | NaN | PosInfinity | NegInfinity

datatype jsval = JUndefined | JNull | JBool bool | JNumber jsnum | JString string

text \<open>
  The platform: what \<open>settings.get(name)\<close> returns, and the language's conversion of
  a string to a number (the string case of \<open>Number(val)\<close>), which is taken as given.
\<close>

record platform =
  settingsGet :: "string \<Rightarrow> jsval"
  stringToNumber :: "string \<Rightarrow> jsnum"

fun toNumber :: "(string \<Rightarrow> jsnum) \<Rightarrow> jsval \<Rightarrow> jsnum" where
  "toNumber stn JUndefined = NaN"
| "toNumber stn JNull = Fin 0"
| "toNumber stn (JBool b) = Fin (if b then 1 else 0)"
| "toNumber stn (JNumber n) = n"
| "toNumber stn (JString s) = stn s"

definition getSubredditSettingNumber :: "platform \<Rightarrow> string \<Rightarrow> rat \<Rightarrow> rat" where
  "getSubredditSettingNumber pf name fallback =
     (let val = settingsGet pf name;
          n = (case val of JNumber x \<Rightarrow> x | _ \<Rightarrow> toNumber (stringToNumber pf) val)
      in case n of Fin x \<Rightarrow> x | _ \<Rightarrow> fallback)"

section \<open>Optimistic transactions on one key\<close>

text \<open>
  Every transactional loop of the server has the shape
  \<open>for (attempt < 5) { watch key; read key; compute; multi; set key; exec }\<close>.
  The computation either returns early without writing, or queues one write. \<open>exec\<close>
  commits the write only if no other request touched the key since it was watched.

  \<open>casLoop n body v sched\<close> runs at most \<open>n\<close> attempts from the stored value \<open>v\<close>.
  The schedule \<open>sched\<close> gives, attempt by attempt, what concurrent requests did to the
  key between this request's read and its \<open>exec\<close>: \<open>None\<close> (or a finished schedule)
  when the key was not touched, so \<open>exec\<close> commits; \<open>Some w\<close> when the key was
  touched and now holds \<open>w\<close>, so \<open>exec\<close> reports a conflict and the next attempt reads
  \<open>w\<close>.
\<close>

datatype ('v, 'r, 'w) txn = Return 'r | Write 'v 'w

datatype ('v, 'r, 'w) outcome = Returned 'r 'v | Committed 'w 'v | Exhausted 'v

fun casLoop ::
  "nat \<Rightarrow> ('v \<Rightarrow> ('v, 'r, 'w) txn) \<Rightarrow> 'v \<Rightarrow> 'v option list \<Rightarrow> ('v, 'r, 'w) outcome" where
  "casLoop 0 body v sched = Exhausted v"
| "casLoop (Suc n) body v sched =
     (case body v of
        Return r \<Rightarrow> Returned r v
      | Write v' x \<Rightarrow>
          (case sched of
             [] \<Rightarrow> Committed x v'
           | None # _ \<Rightarrow> Committed x v'
           | Some w # rest \<Rightarrow> casLoop n body w rest))"

definition MAX_QUEUE_TRANSACTION_RETRIES :: nat where
  "MAX_QUEUE_TRANSACTION_RETRIES = 5"

text \<open>
  The values that the leading run of conflicts of a schedule leaves in the key: attempt
  \<open>i + 1\<close> reads the \<open>i\<close>-th of them.
\<close>

fun conflictWrites :: "'v option list \<Rightarrow> 'v list" where
  "conflictWrites [] = []"
| "conflictWrites (None # _) = []"
| "conflictWrites (Some w # rest) = w # conflictWrites rest"

section \<open>The matchmaking queue\<close>

record QueueEntry =
  userId :: string
  userName :: string
  joinedAt :: int
  lastSeen :: int

text \<open>
  The value of the queue key is the list \<open>parseQueue\<close> yields: a missing or malformed
  value reads as the empty list.
\<close>

definition notStale :: "rat \<Rightarrow> QueueEntry \<Rightarrow> bool" where
  "notStale staleCutoff q = (staleCutoff \<le> of_int (QueueEntry.lastSeen q))"

fun findIndex :: "('a \<Rightarrow> bool) \<Rightarrow> 'a list \<Rightarrow> nat option" where
  "findIndex P [] = None"
| "findIndex P (x # xs) = (if P x then Some 0 else map_option Suc (findIndex P xs))"

text \<open>
  The computation of \<open>queueUpsertAtomic\<close>, which the source writes twice: in the loop
  and in the fallback. \<open>Array.prototype.sort\<close> is stable, as \<open>sort_key\<close> is.
\<close>

definition upsertQueue :: "string \<Rightarrow> string \<Rightarrow> int \<Rightarrow> rat \<Rightarrow> QueueEntry list \<Rightarrow> QueueEntry list" where
  "upsertQueue uid uname now staleCutoff raw =
     (let queue = filter (notStale staleCutoff) raw;
          queue' =
            (case findIndex (\<lambda>q. QueueEntry.userId q = uid) queue of
               Some idx \<Rightarrow>
                 queue[idx := (queue ! idx)\<lparr>QueueEntry.lastSeen := now, QueueEntry.userName := uname\<rparr>]
             | None \<Rightarrow>
                 queue @ [\<lparr>QueueEntry.userId = uid, userName = uname, joinedAt = now, lastSeen = now\<rparr>])
      in sort_key joinedAt queue')"

text \<open>
  Each queue operation takes the stored queue and the schedule of concurrent writes and
  returns its result with the queue that is stored when it finishes. The fallback of
  \<open>queueUpsertAtomic\<close> and \<open>queueRemoveUserAtomic\<close> is a plain read followed by a
  plain write: whatever a concurrent request writes in between is overwritten.
\<close>

definition queueUpsertAtomic ::
  "string \<Rightarrow> string \<Rightarrow> int \<Rightarrow> rat \<Rightarrow> QueueEntry list \<Rightarrow> QueueEntry list option list
     \<Rightarrow> QueueEntry list \<times> QueueEntry list" where
  "queueUpsertAtomic uid uname now inactiveKickSeconds v sched =
     (let staleCutoff = of_int now - inactiveKickSeconds * 1000;
          body = (\<lambda>raw. let queue = upsertQueue uid uname now staleCutoff raw
                       in (Write queue queue :: (QueueEntry list, QueueEntry list, QueueEntry list) txn))
      in case casLoop MAX_QUEUE_TRANSACTION_RETRIES body v sched of
           Returned queue v' \<Rightarrow> (queue, v')
         | Committed queue v' \<Rightarrow> (queue, v')
         | Exhausted v' \<Rightarrow> (let queue = upsertQueue uid uname now staleCutoff v' in (queue, queue)))"

definition queueFilterStaleAtomic ::
  "rat \<Rightarrow> QueueEntry list \<Rightarrow> QueueEntry list option list \<Rightarrow> bool \<times> QueueEntry list" where
  "queueFilterStaleAtomic staleCutoff v sched =
     (let body = (\<lambda>raw. (Write (filter (notStale staleCutoff) raw) True
                            :: (QueueEntry list, bool, bool) txn))
      in case casLoop MAX_QUEUE_TRANSACTION_RETRIES body v sched of
           Returned r v' \<Rightarrow> (r, v')
         | Committed r v' \<Rightarrow> (r, v')
         | Exhausted v' \<Rightarrow> (False, v'))"

definition queueRemoveUserAtomic ::
  "string \<Rightarrow> QueueEntry list \<Rightarrow> QueueEntry list option list \<Rightarrow> QueueEntry list" where
  "queueRemoveUserAtomic uid v sched =
     (let body = (\<lambda>raw. (Write (filter (\<lambda>q. QueueEntry.userId q \<noteq> uid) raw) ()
                            :: (QueueEntry list, unit, unit) txn))
      in case casLoop MAX_QUEUE_TRANSACTION_RETRIES body v sched of
           Returned _ v' \<Rightarrow> v'
         | Committed _ v' \<Rightarrow> v'
         | Exhausted v' \<Rightarrow> filter (\<lambda>q. QueueEntry.userId q \<noteq> uid) v')"

subsection \<open>Picking a match\<close>

datatype js_error = TypeError | JsError string

text \<open>\<open>xs.slice(0, e)\<close> for a finite \<open>e\<close>: the bound is truncated towards zero, and a
  negative bound counts from the end.\<close>

definition sliceTo :: "'a list \<Rightarrow> rat \<Rightarrow> 'a list" where
  "sliceTo xs e =
     (let k = (if 0 \<le> e then \<lfloor>e\<rfloor> else \<lceil>e\<rceil>)
      in if k < 0 then take (nat (max (int (length xs) + k) 0)) xs else take (nat k) xs)"

text \<open>
  One attempt of \<open>tryMatchPickAtomic\<close> on the queue it read. Reading \<open>queue[0].joinedAt\<close>
  of an empty queue throws; the clamped minimum keeps that branch out of reach.
\<close>

definition matchPickTxn ::
  "rat \<Rightarrow> rat \<Rightarrow> rat \<Rightarrow> int \<Rightarrow> rat \<Rightarrow> QueueEntry list
     \<Rightarrow> (QueueEntry list, js_error + QueueEntry list option, QueueEntry list) txn" where
  "matchPickTxn maxPlayers minPlayersToStart quickStartSeconds now staleCutoff raw =
     (let queue = filter (notStale staleCutoff) raw
      in if of_nat (length queue) < minPlayersToStart then Return (Inr None)
         else
           (case queue of
              [] \<Rightarrow> Return (Inl TypeError)
            | q0 # _ \<Rightarrow>
                (let oldestWait = now - joinedAt q0;
                     canStart =
                       (maxPlayers \<le> of_nat (length queue) \<or>
                        (minPlayersToStart \<le> of_nat (length queue) \<and>
                         quickStartSeconds * 1000 \<le> of_int oldestWait))
                 in if \<not> canStart then Return (Inr None)
                    else
                      (let picked = sliceTo queue (min maxPlayers (of_nat (length queue)));
                           remaining = drop (length picked) queue
                       in Write remaining picked))))"

definition effMaxPlayers :: "platform \<Rightarrow> rat" where
  "effMaxPlayers pf = min 4 (max 2 (getSubredditSettingNumber pf ''maxPlayers'' 4))"

definition effMinPlayersToStart :: "platform \<Rightarrow> rat" where
  "effMinPlayersToStart pf = max 2 (getSubredditSettingNumber pf ''minPlayersToStart'' 2)"

definition effQuickStartSeconds :: "platform \<Rightarrow> rat" where
  "effQuickStartSeconds pf = max 1 (getSubredditSettingNumber pf ''queueQuickStartSeconds'' 8)"

definition effInactiveKickSeconds :: "platform \<Rightarrow> rat" where
  "effInactiveKickSeconds pf = max 5 (getSubredditSettingNumber pf ''inactiveKickSeconds'' 20)"

definition tryMatchPickAtomic ::
  "platform \<Rightarrow> int \<Rightarrow> QueueEntry list \<Rightarrow> QueueEntry list option list
     \<Rightarrow> (js_error + QueueEntry list option) \<times> QueueEntry list" where
  "tryMatchPickAtomic pf now v sched =
     (let maxPlayers = effMaxPlayers pf;
          minPlayersToStart = effMinPlayersToStart pf;
          quickStartSeconds = effQuickStartSeconds pf;
          inactiveKickSeconds = effInactiveKickSeconds pf;
          staleCutoff = of_int now - inactiveKickSeconds * 1000
      in case casLoop MAX_QUEUE_TRANSACTION_RETRIES
                (matchPickTxn maxPlayers minPlayersToStart quickStartSeconds now staleCutoff) v sched of
           Returned r v' \<Rightarrow> (r, v')
         | Committed picked v' \<Rightarrow> (Inr (Some picked), v')
         | Exhausted v' \<Rightarrow> (Inr None, v'))"

section \<open>Rooms\<close>

datatype status = Waiting | Playing | Ended

record Player =
  userId :: string
  userName :: string
  score :: int
  lastSeen :: int

text \<open>
  The state a viewer receives (\<open>RoomPublicState\<close> of the shared protocol, with the
  fields \<open>publicState\<close> fills in).
\<close>

record RoomPublicState =
  roomId :: string
  status :: status
  createdAt :: int
  updatedAt :: int
  players :: "Player list"
  drawerUserId :: "string option"
  roundEndsAt :: "rat option"
  roundNumber :: int
  maxRounds :: rat
  wordMask :: "string option"
  word :: "string option"

text \<open>
  The stored room. \<open>players\<close> is a JavaScript object keyed by user id: an association
  list in insertion order, read with \<open>map_of\<close> and changed with the operations of
  \<open>AList\<close> (an update keeps the key's place, a new key goes last). An optional field
  is an \<open>option\<close>.
\<close>

record RoomState =
  roomId :: string
  status :: status
  createdAt :: int
  updatedAt :: int
  players :: "(string \<times> Player) list"
  order :: "string list"
  roundNumber :: int
  maxRounds :: rat
  drawerUserId :: "string option"
  word :: "string option"
  roundEndsAt :: "rat option"
  roundResolvedAt :: "int option"
  guessedCorrectUserIds :: "string list"

text \<open>Truthiness of an optional number and of an optional string.\<close>

definition truthyNum :: "'a::zero option \<Rightarrow> bool" where
  "truthyNum x = (case x of None \<Rightarrow> False | Some n \<Rightarrow> n \<noteq> 0)"

definition truthyStr :: "string option \<Rightarrow> bool" where
  "truthyStr x = (case x of None \<Rightarrow> False | Some s \<Rightarrow> s \<noteq> [])"

definition withRoomDefaults :: "RoomState \<Rightarrow> RoomState" where
  "withRoomDefaults room = (if maxRounds room < 1 then room\<lparr>maxRounds := 3\<rparr> else room)"

subsection \<open>What viewers see\<close>

definition isAsciiLetter :: "char \<Rightarrow> bool" where
  "isAsciiLetter c = (let n = (of_char c :: nat) in (65 \<le> n \<and> n \<le> 90) \<or> (97 \<le> n \<and> n \<le> 122))"

definition maskWord :: "string \<Rightarrow> string" where
  "maskWord w = map (\<lambda>c. if isAsciiLetter c then CHR ''_'' else c) w"

definition publicState :: "RoomState \<Rightarrow> string \<Rightarrow> RoomPublicState" where
  "publicState room viewerId =
     (let ps = sort_key (\<lambda>p. - score p) (map snd (players room));
          isDrawer = (drawerUserId room = Some viewerId);
          base = \<lparr>RoomPublicState.roomId = roomId room,
                  status = status room,
                  createdAt = createdAt room,
                  updatedAt = updatedAt room,
                  players = ps,
                  drawerUserId = drawerUserId room,
                  roundEndsAt = roundEndsAt room,
                  roundNumber = roundNumber room,
                  maxRounds = maxRounds room,
                  wordMask = (if truthyStr (word room) then map_option maskWord (word room) else None),
                  word = None\<rparr>
      in if isDrawer then base\<lparr>RoomPublicState.word := word room\<rparr> else base)"

datatype RealtimeMessage = RoomStateMessage RoomPublicState

definition broadcastRoomState :: "RoomState \<Rightarrow> RealtimeMessage" where
  "broadcastRoomState room = RoomStateMessage (publicState room ''not-a-viewer'')"

subsection \<open>The round state machine\<close>

text \<open>\<open>xs.indexOf(x)\<close>: the first position of \<open>x\<close>, or \<open>-1\<close>.\<close>

definition indexOf :: "'a list \<Rightarrow> 'a \<Rightarrow> int" where
  "indexOf xs x = (case findIndex (\<lambda>y. y = x) xs of None \<Rightarrow> - 1 | Some i \<Rightarrow> int i)"

text \<open>
  \<open>room.order[(idx + 1) % room.order.length]\<close> with
  \<open>idx = room.order.indexOf(room.drawerUserId ?? room.order[0])\<close>. On an empty order
  the index is \<open>NaN\<close> and the entry read is \<open>undefined\<close>.
\<close>

definition nextDrawer :: "string list \<Rightarrow> string option \<Rightarrow> string option" where
  "nextDrawer ord drawer =
     (case ord of
        [] \<Rightarrow> None
      | first # _ \<Rightarrow>
          (let idx = indexOf ord (case drawer of Some d \<Rightarrow> d | None \<Rightarrow> first)
           in Some (ord ! nat ((idx + 1) mod int (length ord)))))"

definition effRoundSeconds :: "platform \<Rightarrow> rat" where
  "effRoundSeconds pf = max 20 (getSubredditSettingNumber pf ''roundTimeSec'' 80)"

definition effMaxRounds :: "platform \<Rightarrow> rat" where
  "effMaxRounds pf = max 1 (getSubredditSettingNumber pf ''roundsPerGame'' 3)"

text \<open>
  The room \<open>advanceOrEndRound\<close> saves: \<open>now\<close> is its clock reading and \<open>w\<close> the word
  \<open>pickWord()\<close> drew.
\<close>

definition advanceOrEndRoundRoom :: "platform \<Rightarrow> int \<Rightarrow> string \<Rightarrow> RoomState \<Rightarrow> RoomState" where
  "advanceOrEndRoundRoom pf now w room =
     (if maxRounds room \<le> of_int (roundNumber room) then
        room\<lparr>status := Ended, word := None, drawerUserId := None, roundEndsAt := None,
             roundResolvedAt := Some now, updatedAt := now\<rparr>
      else
        (let roundSeconds = effRoundSeconds pf
         in room\<lparr>roundNumber := roundNumber room + 1,
                 drawerUserId := nextDrawer (order room) (drawerUserId room),
                 word := Some w,
                 roundEndsAt := Some (of_int now + roundSeconds * 1000),
                 roundResolvedAt := None,
                 guessedCorrectUserIds := [],
                 updatedAt := now\<rparr>))"

section \<open>The store of one post\<close>

text \<open>
  All keys of one post: the queue, one record per room, the room index and the
  user-room index.
\<close>

record store =
  queue :: "QueueEntry list"
  rooms :: "string \<rightharpoonup> RoomState"
  roomIndex :: "string \<rightharpoonup> int"
  userRooms :: "string \<rightharpoonup> string"

definition loadRoom :: "store \<Rightarrow> string \<Rightarrow> RoomState option" where
  "loadRoom s rid = rooms s rid"

definition saveRoom :: "store \<Rightarrow> RoomState \<Rightarrow> store" where
  "saveRoom s room =
     s\<lparr>rooms := (rooms s)(roomId room \<mapsto> room),
       roomIndex := (roomIndex s)(roomId room \<mapsto> updatedAt room)\<rparr>"

definition deleteRoom :: "store \<Rightarrow> string \<Rightarrow> store" where
  "deleteRoom s rid = s\<lparr>rooms := (rooms s)(rid := None), roomIndex := (roomIndex s)(rid := None)\<rparr>"

definition setUserRoomTxn ::
  "string \<Rightarrow> string option \<Rightarrow> (string \<rightharpoonup> string) \<Rightarrow> (string \<rightharpoonup> string, unit, unit) txn" where
  "setUserRoomTxn uid rid m =
     Write (case rid of
              Some r \<Rightarrow> if r \<noteq> [] then m(uid \<mapsto> r) else m(uid := None)
            | None \<Rightarrow> m(uid := None)) ()"

definition setUserRoomKey ::
  "string \<Rightarrow> string option \<Rightarrow> (string \<rightharpoonup> string) \<Rightarrow> (string \<rightharpoonup> string) option list
     \<Rightarrow> (string \<rightharpoonup> string)" where
  "setUserRoomKey uid rid v sched =
     (case casLoop MAX_QUEUE_TRANSACTION_RETRIES (setUserRoomTxn uid rid) v sched of
        Returned _ v' \<Rightarrow> v'
      | Committed _ v' \<Rightarrow> v'
      | Exhausted v' \<Rightarrow> (case setUserRoomTxn uid rid v' of Write m _ \<Rightarrow> m | Return _ \<Rightarrow> v'))"

text \<open>
  The request handlers below run one at a time on the store: no other request touches
  a key while a handler runs, so every schedule is empty.
\<close>

definition setUserRoom :: "store \<Rightarrow> string \<Rightarrow> string option \<Rightarrow> store" where
  "setUserRoom s uid rid = s\<lparr>userRooms := setUserRoomKey uid rid (userRooms s) []\<rparr>"

definition getUserRoom :: "store \<Rightarrow> string \<Rightarrow> string option" where
  "getUserRoom s uid = userRooms s uid"

definition fromEntries :: "(string \<times> 'a) list \<Rightarrow> (string \<times> 'a) list" where
  "fromEntries es = fold (\<lambda>(k, v). AList.update k v) es []"

text \<open>
  \<open>maybeStartMatchForPost\<close>: \<open>newRoomId\<close> is the identifier drawn for the room and
  \<open>w\<close> the word drawn for round 1. A handler run is modelled with one clock reading.
\<close>

definition newRoom :: "platform \<Rightarrow> int \<Rightarrow> string \<Rightarrow> string \<Rightarrow> QueueEntry list \<Rightarrow> RoomState" where
  "newRoom pf now newRoomId w picked =
     (let roundSeconds = effRoundSeconds pf;
          ord = map QueueEntry.userId picked
      in \<lparr>RoomState.roomId = newRoomId,
          status = Playing,
          createdAt = now,
          updatedAt = now,
          players = fromEntries (map (\<lambda>p. (QueueEntry.userId p,
                       \<lparr>Player.userId = QueueEntry.userId p, userName = QueueEntry.userName p,
                        score = 0, lastSeen = QueueEntry.lastSeen p\<rparr>)) picked),
          order = ord,
          roundNumber = 1,
          maxRounds = effMaxRounds pf,
          drawerUserId = (case ord of [] \<Rightarrow> None | first # _ \<Rightarrow> Some first),
          word = Some w,
          roundEndsAt = Some (of_int now + roundSeconds * 1000),
          roundResolvedAt = None,
          guessedCorrectUserIds = []\<rparr>)"

definition maybeStartMatchForPost ::
  "platform \<Rightarrow> int \<Rightarrow> string \<Rightarrow> string \<Rightarrow> store \<Rightarrow> js_error + store" where
  "maybeStartMatchForPost pf now newRoomId w s =
     (case tryMatchPickAtomic pf now (queue s) [] of
        (Inl e, q') \<Rightarrow> Inl e
      | (Inr None, q') \<Rightarrow> Inr (s\<lparr>queue := q'\<rparr>)
      | (Inr (Some picked), q') \<Rightarrow>
          if picked = [] then Inr (s\<lparr>queue := q'\<rparr>)
          else
            (let room = newRoom pf now newRoomId w picked;
                 s1 = saveRoom (s\<lparr>queue := q'\<rparr>) room
             in Inr (fold (\<lambda>p st. setUserRoom st (QueueEntry.userId p) (Some newRoomId)) picked s1)))"

section \<open>Request handlers\<close>

text \<open>
  A handler takes the store and the request and returns its response with the store it
  leaves. The post context is fixed; \<open>ctxUser\<close> and \<open>ctxName\<close> are
  \<open>context.userId\<close> and \<open>context.username\<close>. Realtime messages do not touch the
  store and are left out, except the room-state broadcast above. Request texts and
  words are taken to be ASCII: \<open>trim\<close> strips ASCII white space and
  \<open>toLowerCase\<close> lowers ASCII letters.
\<close>

datatype Response = OkResponse | ErrorResponse nat string

definition ensureContext :: "string option \<Rightarrow> string option \<Rightarrow> js_error + (string \<times> string)" where
  "ensureContext ctxUser ctxName =
     (case ctxUser of
        None \<Rightarrow> Inl (JsError ''Missing userId (user must be logged in)'')
      | Some uid \<Rightarrow>
          if uid = [] then Inl (JsError ''Missing userId (user must be logged in)'')
          else Inr (uid, (case ctxName of Some n \<Rightarrow> n | None \<Rightarrow> uid)))"

definition errorMessage :: "js_error \<Rightarrow> string" where
  "errorMessage e = (case e of JsError m \<Rightarrow> m | TypeError \<Rightarrow> ''TypeError'')"

definition isJsWhitespace :: "char \<Rightarrow> bool" where
  "isJsWhitespace c = (c \<in> set [CHR '' '', CHR 0x09, CHR 0x0A, CHR 0x0B, CHR 0x0C, CHR 0x0D])"

definition trim :: "string \<Rightarrow> string" where
  "trim t = rev (dropWhile isJsWhitespace (rev (dropWhile isJsWhitespace t)))"

definition toLowerCase :: "string \<Rightarrow> string" where
  "toLowerCase t =
     map (\<lambda>c. let n = (of_char c :: nat) in if 65 \<le> n \<and> n \<le> 90 then char_of (n + 32) else c) t"

definition advanceOrEndRound :: "platform \<Rightarrow> int \<Rightarrow> string \<Rightarrow> store \<Rightarrow> RoomState \<Rightarrow> store" where
  "advanceOrEndRound pf now w s room = saveRoom s (advanceOrEndRoundRoom pf now w room)"

definition isPlayerOf :: "store \<Rightarrow> string \<Rightarrow> string \<Rightarrow> bool" where
  "isPlayerOf s rid uid =
     (case map_option withRoomDefaults (loadRoom s rid) of
        None \<Rightarrow> False
      | Some room \<Rightarrow> map_of (players room) uid \<noteq> None)"

subsection \<open>Guess\<close>

definition addScore :: "(string \<times> Player) list \<Rightarrow> string \<Rightarrow> int \<Rightarrow> (string \<times> Player) list" where
  "addScore ps uid n = AList.map_entry uid (\<lambda>p. p\<lparr>score := score p + n\<rparr>) ps"

text \<open>
  The winning branch of the guess transaction: the resolution mark, the guesser and the
  two awards, all written to the one room value that the transaction sets.
\<close>

definition awardPoints :: "RoomState \<Rightarrow> string \<Rightarrow> int \<Rightarrow> RoomState" where
  "awardPoints latestRoom uid now =
     (let r1 = latestRoom\<lparr>roundResolvedAt := Some now, updatedAt := now,
                  guessedCorrectUserIds := guessedCorrectUserIds latestRoom @ [uid]\<rparr>;
          r2 = r1\<lparr>players := addScore (players r1) uid 10\<rparr>
      in case drawerUserId r2 of
           Some d \<Rightarrow>
             if d \<noteq> [] \<and> map_of (players r2) d \<noteq> None
             then r2\<lparr>players := addScore (players r2) d 3\<rparr> else r2
         | None \<Rightarrow> r2)"

text \<open>One attempt of the resolution loop of the guess handler, on the room it read.\<close>

definition guessTxn ::
  "string \<Rightarrow> int \<Rightarrow> RoomState option \<Rightarrow> (RoomState option, Response, RoomState) txn" where
  "guessTxn uid now v =
     (case map_option withRoomDefaults v of
        None \<Rightarrow> Return (ErrorResponse 404 ''Room not found'')
      | Some latestRoom \<Rightarrow>
          if map_of (players latestRoom) uid = None then Return (ErrorResponse 403 ''Not in this room'')
          else if drawerUserId latestRoom = Some uid then Return (ErrorResponse 403 ''Drawer cannot guess'')
          else if status latestRoom \<noteq> Playing then Return OkResponse
          else if truthyNum (roundResolvedAt latestRoom) then Return OkResponse
          else if uid \<in> set (guessedCorrectUserIds latestRoom) then Return OkResponse
          else (let r = awardPoints latestRoom uid now in Write (Some r) r))"

definition guessHandler ::
  "platform \<Rightarrow> int \<Rightarrow> string \<Rightarrow> store \<Rightarrow> string option \<Rightarrow> string option \<Rightarrow> string \<Rightarrow> string
     \<Rightarrow> Response \<times> store" where
  "guessHandler pf now w s ctxUser ctxName rid textRaw =
     (case ensureContext ctxUser ctxName of
        Inl e \<Rightarrow> (ErrorResponse 400 (errorMessage e), s)
      | Inr (uid, uname) \<Rightarrow>
          (case map_option withRoomDefaults (loadRoom s rid) of
             None \<Rightarrow> (ErrorResponse 404 ''Room not found'', s)
           | Some room \<Rightarrow>
               if map_of (players room) uid = None then (ErrorResponse 403 ''Not in this room'', s)
               else if drawerUserId room = Some uid then (ErrorResponse 403 ''Drawer cannot guess'', s)
               else if status room \<noteq> Playing then (ErrorResponse 400 ''Game ended'', s)
               else
                 (let text = take 80 (trim textRaw)
                  in if text = [] then (OkResponse, s)
                     else
                       (let isCorrect =
                              (case word room of
                                 Some rw \<Rightarrow> toLowerCase text = toLowerCase rw
                               | None \<Rightarrow> False)
                        in if \<not> isCorrect then (OkResponse, s)
                           else
                             (case casLoop MAX_QUEUE_TRANSACTION_RETRIES (guessTxn uid now) (rooms s rid) [] of
                                Returned resp v' \<Rightarrow> (resp, s\<lparr>rooms := (rooms s)(rid := v')\<rparr>)
                              | Committed resolvedRoom v' \<Rightarrow>
                                  (OkResponse,
                                   advanceOrEndRound pf now w (s\<lparr>rooms := (rooms s)(rid := v')\<rparr>) resolvedRoom)
                              | Exhausted v' \<Rightarrow> (OkResponse, s\<lparr>rooms := (rooms s)(rid := v')\<rparr>))))))"

text \<open>
  The same handler while other requests write the room key. The room is read once before
  the loop, and \<open>isCorrect\<close> is decided on that read; \<open>sched\<close> is the schedule of the
  concurrent writes that the attempts of the resolution loop meet. With the empty
  schedule this is \<open>guessHandler\<close>.
\<close>

definition guessHandlerRacing ::
  "platform \<Rightarrow> int \<Rightarrow> string \<Rightarrow> store \<Rightarrow> string option \<Rightarrow> string option \<Rightarrow> string \<Rightarrow> string
     \<Rightarrow> RoomState option option list \<Rightarrow> Response \<times> store" where
  "guessHandlerRacing pf now w s ctxUser ctxName rid textRaw sched =
     (case ensureContext ctxUser ctxName of
        Inl e \<Rightarrow> (ErrorResponse 400 (errorMessage e), s)
      | Inr (uid, uname) \<Rightarrow>
          (case map_option withRoomDefaults (loadRoom s rid) of
             None \<Rightarrow> (ErrorResponse 404 ''Room not found'', s)
           | Some room \<Rightarrow>
               if map_of (players room) uid = None then (ErrorResponse 403 ''Not in this room'', s)
               else if drawerUserId room = Some uid then (ErrorResponse 403 ''Drawer cannot guess'', s)
               else if status room \<noteq> Playing then (ErrorResponse 400 ''Game ended'', s)
               else
                 (let text = take 80 (trim textRaw)
                  in if text = [] then (OkResponse, s)
                     else
                       (let isCorrect =
                              (case word room of
                                 Some rw \<Rightarrow> toLowerCase text = toLowerCase rw
                               | None \<Rightarrow> False)
                        in if \<not> isCorrect then (OkResponse, s)
                           else
                             (case casLoop MAX_QUEUE_TRANSACTION_RETRIES (guessTxn uid now) (rooms s rid) sched of
                                Returned resp v' \<Rightarrow> (resp, s\<lparr>rooms := (rooms s)(rid := v')\<rparr>)
                              | Committed resolvedRoom v' \<Rightarrow>
                                  (OkResponse,
                                   advanceOrEndRound pf now w (s\<lparr>rooms := (rooms s)(rid := v')\<rparr>) resolvedRoom)
                              | Exhausted v' \<Rightarrow> (OkResponse, s\<lparr>rooms := (rooms s)(rid := v')\<rparr>))))))"

subsection \<open>Advance\<close>

definition advanceTxn ::
  "string \<Rightarrow> int \<Rightarrow> RoomState option \<Rightarrow> (RoomState option, Response, RoomState) txn" where
  "advanceTxn uid now v =
     (case map_option withRoomDefaults v of
        None \<Rightarrow> Return (ErrorResponse 404 ''Room not found'')
      | Some latestRoom \<Rightarrow>
          if map_of (players latestRoom) uid = None then Return (ErrorResponse 403 ''Not in this room'')
          else if status latestRoom \<noteq> Playing then Return OkResponse
          else if truthyNum (roundResolvedAt latestRoom) then Return OkResponse
          else if (case roundEndsAt latestRoom of
                     Some e \<Rightarrow> e \<noteq> 0 \<and> of_int now < e
                   | None \<Rightarrow> False) then Return OkResponse
          else
            (let r1 = latestRoom\<lparr>roundResolvedAt := Some now, updatedAt := now\<rparr>
             in Write (Some r1) r1))"

definition advanceHandler ::
  "platform \<Rightarrow> int \<Rightarrow> string \<Rightarrow> store \<Rightarrow> string option \<Rightarrow> string option \<Rightarrow> string
     \<Rightarrow> Response \<times> store" where
  "advanceHandler pf now w s ctxUser ctxName rid =
     (case ensureContext ctxUser ctxName of
        Inl e \<Rightarrow> (ErrorResponse 400 (errorMessage e), s)
      | Inr (uid, uname) \<Rightarrow>
          (case map_option withRoomDefaults (loadRoom s rid) of
             None \<Rightarrow> (ErrorResponse 404 ''Room not found'', s)
           | Some room \<Rightarrow>
               if map_of (players room) uid = None then (ErrorResponse 403 ''Not in this room'', s)
               else if status room \<noteq> Playing then (OkResponse, s)
               else
                 (case casLoop MAX_QUEUE_TRANSACTION_RETRIES (advanceTxn uid now) (rooms s rid) [] of
                    Returned resp v' \<Rightarrow> (resp, s\<lparr>rooms := (rooms s)(rid := v')\<rparr>)
                  | Committed resolvedRoom v' \<Rightarrow>
                      (OkResponse,
                       advanceOrEndRound pf now w (s\<lparr>rooms := (rooms s)(rid := v')\<rparr>) resolvedRoom)
                  | Exhausted v' \<Rightarrow> (OkResponse, s\<lparr>rooms := (rooms s)(rid := v')\<rparr>))))"

subsection \<open>Leave, ping, state query, room collection\<close>

definition leaveHandler ::
  "platform \<Rightarrow> int \<Rightarrow> string \<Rightarrow> store \<Rightarrow> string option \<Rightarrow> string option \<Rightarrow> string
     \<Rightarrow> Response \<times> store" where
  "leaveHandler pf now w s ctxUser ctxName rid =
     (case ensureContext ctxUser ctxName of
        Inl e \<Rightarrow> (ErrorResponse 400 (errorMessage e), s)
      | Inr (uid, uname) \<Rightarrow>
          (case map_option withRoomDefaults (loadRoom s rid) of
             None \<Rightarrow> (OkResponse, setUserRoom s uid None)
           | Some room0 \<Rightarrow>
               (let room = room0\<lparr>players := AList.delete uid (players room0),
                                 order := filter (\<lambda>i. i \<noteq> uid) (order room0),
                                 updatedAt := now\<rparr>;
                    s1 = setUserRoom s uid None
                in if length (order room) < 2 then
                     (OkResponse,
                      deleteRoom (fold (\<lambda>i st. setUserRoom st i None) (order room) s1) rid)
                   else if drawerUserId room = Some uid \<and> status room = Playing then
                     (OkResponse,
                      advanceOrEndRound pf now w s1 (room\<lparr>roundResolvedAt := Some now\<rparr>))
                   else (OkResponse, saveRoom s1 room))))"

definition pingHandler :: "int \<Rightarrow> store \<Rightarrow> string option \<Rightarrow> string option \<Rightarrow> Response \<times> store" where
  "pingHandler now s ctxUser ctxName =
     (case ensureContext ctxUser ctxName of
        Inl e \<Rightarrow> (OkResponse, s)
      | Inr (uid, uname) \<Rightarrow>
          (case getUserRoom s uid of
             None \<Rightarrow> (OkResponse, s)
           | Some rid \<Rightarrow>
               if rid = [] then (OkResponse, s)
               else
                 (case map_option withRoomDefaults (loadRoom s rid) of
                    None \<Rightarrow> (OkResponse, s)
                  | Some room \<Rightarrow>
                      if map_of (players room) uid = None then (OkResponse, s)
                      else
                        (OkResponse,
                         saveRoom s (room\<lparr>players := AList.map_entry uid (\<lambda>p. p\<lparr>Player.lastSeen := now\<rparr>)
                                                      (players room),
                                           updatedAt := now\<rparr>)))))"

definition roomStateHandler ::
  "store \<Rightarrow> string option \<Rightarrow> string option \<Rightarrow> string \<Rightarrow> Response + RoomPublicState" where
  "roomStateHandler s ctxUser ctxName rid =
     (case ensureContext ctxUser ctxName of
        Inl e \<Rightarrow> Inl (ErrorResponse 400 (errorMessage e))
      | Inr (uid, uname) \<Rightarrow>
          (case map_option withRoomDefaults (loadRoom s rid) of
             None \<Rightarrow> Inl (ErrorResponse 404 ''Room not found'')
           | Some room \<Rightarrow>
               if map_of (players room) uid = None then Inl (ErrorResponse 403 ''Not in this room'')
               else Inr (publicState room uid)))"

text \<open>The body of the room collector's loop for one room of the index.\<close>

definition roomGc :: "int \<Rightarrow> store \<Rightarrow> string \<Rightarrow> store" where
  "roomGc now s rid =
     (case map_option withRoomDefaults (loadRoom s rid) of
        None \<Rightarrow> s
      | Some room \<Rightarrow>
          (let inactiveForMs = now - updatedAt room;
               shouldDelete = (length (order room) < 2 \<or> inactiveForMs > 30 * 60 * 1000)
           in if \<not> shouldDelete then s
              else deleteRoom (fold (\<lambda>i st. setUserRoom st i None) (order room) s) rid))"

subsection \<open>Session bootstrap and matchmaking join\<close>

datatype SessionBootstrapResponse =
  LoggedOut | SessionMatched string | SessionQueued nat | SessionMenu

text \<open>The session handler once the user-room index has been dealt with.\<close>

definition sessionFromQueue :: "store \<Rightarrow> string \<Rightarrow> SessionBootstrapResponse \<times> store" where
  "sessionFromQueue s uid =
     (let q = queue s
      in if uid \<in> set (map QueueEntry.userId q) then (SessionQueued (length q), s)
         else (SessionMenu, s))"

definition sessionHandler :: "store \<Rightarrow> string option \<Rightarrow> SessionBootstrapResponse \<times> store" where
  "sessionHandler s ctxUser =
     (case ctxUser of
        None \<Rightarrow> (LoggedOut, s)
      | Some uid \<Rightarrow>
          if uid = [] then (LoggedOut, s)
          else
            (case getUserRoom s uid of
               None \<Rightarrow> sessionFromQueue s uid
             | Some existingRoomId \<Rightarrow>
                 if existingRoomId = [] then sessionFromQueue s uid
                 else if isPlayerOf s existingRoomId uid then (SessionMatched existingRoomId, s)
                 else sessionFromQueue (setUserRoom s uid None) uid))"

datatype MatchmakingJoinResponse = JoinMatched string | JoinQueued nat | JoinError

text \<open>
  The join handler once the user-room index has been dealt with. The registry of
  tracked posts, which \<open>trackPost\<close> updates, is not part of the store modelled here.
\<close>

definition joinQueue ::
  "platform \<Rightarrow> int \<Rightarrow> string \<Rightarrow> string \<Rightarrow> store \<Rightarrow> string \<Rightarrow> string
     \<Rightarrow> MatchmakingJoinResponse \<times> store" where
  "joinQueue pf now newRoomId w s uid uname =
     (let inactiveKickSeconds = effInactiveKickSeconds pf;
          s2 = s\<lparr>queue := snd (queueUpsertAtomic uid uname now inactiveKickSeconds (queue s) [])\<rparr>
      in case maybeStartMatchForPost pf now newRoomId w s2 of
           Inl e \<Rightarrow> (JoinError, s2)
         | Inr s3 \<Rightarrow>
             (case getUserRoom s3 uid of
                None \<Rightarrow> (JoinQueued (length (queue s3)), s3)
              | Some updatedRoomId \<Rightarrow>
                  if updatedRoomId = [] then (JoinQueued (length (queue s3)), s3)
                  else (JoinMatched updatedRoomId, s3)))"

definition joinHandler ::
  "platform \<Rightarrow> int \<Rightarrow> string \<Rightarrow> string \<Rightarrow> store \<Rightarrow> string option \<Rightarrow> string option
     \<Rightarrow> MatchmakingJoinResponse \<times> store" where
  "joinHandler pf now newRoomId w s ctxUser ctxName =
     (case ensureContext ctxUser ctxName of
        Inl e \<Rightarrow> (JoinError, s)
      | Inr (uid, uname) \<Rightarrow>
          (case getUserRoom s uid of
             None \<Rightarrow> joinQueue pf now newRoomId w s uid uname
           | Some existing \<Rightarrow>
               if existing = [] then joinQueue pf now newRoomId w s uid uname
               else if isPlayerOf s existing uid then (JoinMatched existing, s)
               else joinQueue pf now newRoomId w (setUserRoom s uid None) uid uname))"

section \<open>Sequences of room requests\<close>

text \<open>
  The requests that act on existing rooms, each with the clock reading of its handler
  and, where a round may start, the word that would be drawn. \<open>serve\<close> is the store
  after one request; \<open>serveAll\<close> serves a list of requests in order.
\<close>

datatype call =
    GuessCall int string "string option" "string option" string string
  | AdvanceCall int string "string option" "string option" string
  | LeaveCall int string "string option" "string option" string
  | PingCall int "string option" "string option"
  | StateCall "string option" "string option" string
  | GcCall int string

definition serve :: "platform \<Rightarrow> store \<Rightarrow> call \<Rightarrow> store" where
  "serve pf s c =
     (case c of
        GuessCall now w ctxUser ctxName rid textRaw \<Rightarrow>
          snd (guessHandler pf now w s ctxUser ctxName rid textRaw)
      | AdvanceCall now w ctxUser ctxName rid \<Rightarrow> snd (advanceHandler pf now w s ctxUser ctxName rid)
      | LeaveCall now w ctxUser ctxName rid \<Rightarrow> snd (leaveHandler pf now w s ctxUser ctxName rid)
      | PingCall now ctxUser ctxName \<Rightarrow> snd (pingHandler now s ctxUser ctxName)
      | StateCall ctxUser ctxName rid \<Rightarrow> s
      | GcCall now rid \<Rightarrow> roomGc now s rid)"

definition serveAll :: "platform \<Rightarrow> store \<Rightarrow> call list \<Rightarrow> store" where
  "serveAll pf s cs = foldl (serve pf) s cs"





section \<open>User identifiers\<close>

text \<open>
  The platform names a user \<open>t2_\<close> followed by the user's number: the type of
  \<open>context.userId\<close> is that of the strings that start with \<open>t2_\<close>.
\<close>

definition isUserId :: "string \<Rightarrow> bool" where
  "isUserId uid \<longleftrightarrow> take 3 uid = ''t2_''"

text \<open>
  The order of a room and its drawer are made of the user identifiers of queue entries,
  and a queue entry is made of the identifier of the user who joined. \<open>roomIds\<close> and
  \<open>storeIds\<close> say that the user identifiers a room and a store hold in these places are
  platform identifiers.
\<close>

definition roomIds :: "RoomState \<Rightarrow> bool" where
  "roomIds r \<longleftrightarrow>
     (\<forall>u \<in> set (order r). isUserId u) \<and> (\<forall>d. drawerUserId r = Some d \<longrightarrow> isUserId d)"

definition storeIds :: "store \<Rightarrow> bool" where
  "storeIds s \<longleftrightarrow>
     (\<forall>q \<in> set (queue s). isUserId (QueueEntry.userId q)) \<and>
     (\<forall>rid r. rooms s rid = Some r \<longrightarrow> roomIds r)"

text \<open>The store of a post before its first request.\<close>

definition emptyStore :: store where
  "emptyStore = \<lparr>queue = [], rooms = Map.empty, roomIndex = Map.empty, userRooms = Map.empty\<rparr>"

section \<open>Example data\<close>

text \<open>
  A platform whose settings are out of range, not numeric or missing: \<open>maxPlayers\<close>
  is 100, \<open>minPlayersToStart\<close> is the string \<open>two\<close> (not a numeral), and every other
  setting is absent.
\<close>

definition examplePlatform :: platform where
  "examplePlatform =
     \<lparr>settingsGet = (\<lambda>name. if name = ''maxPlayers'' then JNumber (Fin 100)
                             else if name = ''minPlayersToStart'' then JString ''two''
                             else JUndefined),
      stringToNumber = (\<lambda>t. NaN)\<rparr>"

text \<open>Three waiting users at time 100000; the third was last seen before the cutoff.\<close>

definition exampleQueue :: "QueueEntry list" where
  "exampleQueue =
     [\<lparr>QueueEntry.userId = ''t2_alice'', userName = ''alice'', joinedAt = 90000, lastSeen = 99000\<rparr>,
      \<lparr>QueueEntry.userId = ''t2_bob'', userName = ''bob'', joinedAt = 95000, lastSeen = 99500\<rparr>,
      \<lparr>QueueEntry.userId = ''t2_carol'', userName = ''carol'', joinedAt = 96000, lastSeen = 70000\<rparr>]"

text \<open>
  A room of four in round 2 of 3, drawn by the second user of the order, and a store
  holding it. The index entry of a fifth user points to a room that no longer exists.
\<close>

definition examplePlayer :: "string \<Rightarrow> string \<Rightarrow> int \<Rightarrow> (string \<times> Player)" where
  "examplePlayer uid name sc = (uid, \<lparr>Player.userId = uid, userName = name, score = sc, lastSeen = 99000\<rparr>)"

definition exampleRoom :: RoomState where
  "exampleRoom =
     \<lparr>RoomState.roomId = ''r1'', status = Playing, createdAt = 50000, updatedAt = 90000,
      players = [examplePlayer ''t2_alice'' ''alice'' 10, examplePlayer ''t2_bob'' ''bob'' 3,
                 examplePlayer ''t2_carol'' ''carol'' 0, examplePlayer ''t2_dave'' ''dave'' 0],
      order = [''t2_alice'', ''t2_bob'', ''t2_carol'', ''t2_dave''],
      roundNumber = 2, maxRounds = 3,
      drawerUserId = Some ''t2_bob'', word = Some ''tiger'',
      roundEndsAt = Some 170000, roundResolvedAt = None, guessedCorrectUserIds = []\<rparr>"

definition exampleStore :: store where
  "exampleStore =
     \<lparr>queue = [], rooms = [''r1'' \<mapsto> exampleRoom], roomIndex = [''r1'' \<mapsto> 90000],
      userRooms = [''t2_alice'' \<mapsto> ''r1'', ''t2_bob'' \<mapsto> ''r1'', ''t2_carol'' \<mapsto> ''r1'',
                   ''t2_dave'' \<mapsto> ''r1'', ''t2_erin'' \<mapsto> ''r0'']\<rparr>"

text \<open>The same room with its first two users only.\<close>

definition exampleDuoStore :: store where
  "exampleDuoStore =
     \<lparr>queue = [],
      rooms = [''r1'' \<mapsto> exampleRoom\<lparr>players := take 2 (players exampleRoom),
                                        order := take 2 (order exampleRoom)\<rparr>],
      roomIndex = [''r1'' \<mapsto> 90000],
      userRooms = [''t2_alice'' \<mapsto> ''r1'', ''t2_bob'' \<mapsto> ''r1'']\<rparr>"


text \<open>The scoreboard of a room, in the order of its players.\<close>

definition scores :: "RoomState \<Rightarrow> (string \<times> int) list" where
  "scores r = map (\<lambda>(u, p). (u, score p)) (players r)"

text \<open>
  Two players guess the word of round 2 of that room at the same time. The request of
  the third player runs first and alone: it resolves round 2 and starts round 3. The
  request of the fourth player read the room before that transaction committed: its
  first attempt meets the conflict, and when its second attempt reads the key, the other
  request has saved round 3.
\<close>

definition exampleFirstGuess :: store where
  "exampleFirstGuess =
     snd (guessHandler examplePlatform 100000 ''river'' exampleStore
            (Some ''t2_carol'') (Some ''carol'') ''r1'' ''tiger'')"

definition exampleSecondGuess :: "Response \<times> store" where
  "exampleSecondGuess =
     guessHandlerRacing examplePlatform 100001 ''lion'' exampleStore
       (Some ''t2_dave'') (Some ''dave'') ''r1'' ''Tiger'' [Some (rooms exampleFirstGuess ''r1'')]"

section \<open>Properties of the transaction loop and of the match pick\<close>

lemma effMaxPlayers_range: "2 \<le> effMaxPlayers pf \<and> effMaxPlayers pf \<le> 4"
  by (simp add: effMaxPlayers_def)

lemma effMinPlayersToStart_ge: "2 \<le> effMinPlayersToStart pf"
  by (simp add: effMinPlayersToStart_def)

lemma casLoop_Committed:
  "casLoop n body v sched = Committed x v' \<Longrightarrow>
     \<exists>raw. body raw = Write v' x \<and> (raw = v \<or> Some raw \<in> set sched)"
proof (induction n arbitrary: v sched)
  case 0
  then show ?case by simp
next
  case (Suc n)
  show ?case
  proof (cases "body v")
    case (Return r)
    with Suc.prems show ?thesis by simp
  next
    case (Write v1 x1)
    show ?thesis
    proof (cases sched)
      case Nil
      with Suc.prems Write show ?thesis by auto
    next
      case (Cons a rest)
      show ?thesis
      proof (cases a)
        case None
        with Suc.prems Write Cons show ?thesis by auto
      next
        case (Some w)
        with Suc.prems Write Cons have "casLoop n body w rest = Committed x v'" by simp
        from Suc.IH[OF this] obtain raw where
          "body raw = Write v' x" "raw = w \<or> Some raw \<in> set rest" by blast
        with Cons Some show ?thesis by auto
      qed
    qed
  qed
qed

lemma casLoop_Returned:
  "casLoop n body v sched = Returned r v' \<Longrightarrow>
     body v' = Return r \<and> (v' = v \<or> Some v' \<in> set sched)"
proof (induction n arbitrary: v sched)
  case 0
  then show ?case by simp
next
  case (Suc n)
  show ?case
  proof (cases "body v")
    case (Return r1)
    with Suc.prems show ?thesis by simp
  next
    case (Write v1 x1)
    show ?thesis
    proof (cases sched)
      case Nil
      with Suc.prems Write show ?thesis by auto
    next
      case (Cons a rest)
      show ?thesis
      proof (cases a)
        case None
        with Suc.prems Write Cons show ?thesis by auto
      next
        case (Some w)
        with Suc.prems Write Cons have "casLoop n body w rest = Returned r v'" by simp
        from Suc.IH[OF this] have "body v' = Return r \<and> (v' = w \<or> Some v' \<in> set rest)" .
        with Cons Some show ?thesis by auto
      qed
    qed
  qed
qed

lemma casLoop_Committed_last:
  "casLoop n body v sched = Committed x v' \<Longrightarrow>
     body (last (v # conflictWrites sched)) = Write v' x \<and> length (conflictWrites sched) < n"
proof (induction n arbitrary: v sched)
  case 0
  then show ?case by simp
next
  case (Suc n)
  show ?case
  proof (cases "body v")
    case (Return r)
    with Suc.prems show ?thesis by simp
  next
    case (Write v1 x1)
    show ?thesis
    proof (cases sched)
      case Nil
      with Suc.prems Write show ?thesis by simp
    next
      case (Cons a rest)
      show ?thesis
      proof (cases a)
        case None
        with Suc.prems Write Cons show ?thesis by simp
      next
        case (Some w)
        with Suc.prems Write Cons have "casLoop n body w rest = Committed x v'" by simp
        from Suc.IH[OF this] Cons Some show ?thesis by simp
      qed
    qed
  qed
qed

lemma casLoop_unwritten:
  "casLoop n body v sched = Returned r v' \<or> casLoop n body v sched = Exhausted v' \<Longrightarrow>
     v' \<in> set (v # conflictWrites sched)"
proof (induction n arbitrary: v sched)
  case 0
  then show ?case by simp
next
  case (Suc n)
  show ?case
  proof (cases "body v")
    case (Return r1)
    with Suc.prems show ?thesis by simp
  next
    case (Write v1 x1)
    show ?thesis
    proof (cases sched)
      case Nil
      with Suc.prems Write show ?thesis by simp
    next
      case (Cons a rest)
      show ?thesis
      proof (cases a)
        case None
        with Suc.prems Write Cons show ?thesis by simp
      next
        case (Some w)
        with Suc.prems Write Cons have
          "casLoop n body w rest = Returned r v' \<or> casLoop n body w rest = Exhausted v'" by simp
        from Suc.IH[OF this] Cons Some show ?thesis by simp
      qed
    qed
  qed
qed

lemma sliceTo_nonneg: "0 \<le> e \<Longrightarrow> sliceTo xs e = take (nat \<lfloor>e\<rfloor>) xs"
  by (simp add: sliceTo_def Let_def)

lemma matchPickTxn_Write:
  assumes "matchPickTxn mx mn qs now cutoff raw = Write rem picked"
  shows "let queue = filter (notStale cutoff) raw in
           mn \<le> of_nat (length queue) \<and> queue \<noteq> [] \<and>
           (mx \<le> of_nat (length queue) \<or> qs * 1000 \<le> of_int (now - joinedAt (hd queue))) \<and>
           picked = sliceTo queue (min mx (of_nat (length queue))) \<and>
           rem = drop (length picked) queue"
  using assms
  by (auto simp: matchPickTxn_def Let_def split: if_splits list.splits)

lemma picked_length:
  assumes mx: "2 \<le> mx" "mx \<le> (4::rat)" and len: "2 \<le> (of_nat (length xs) :: rat)"
  shows "2 \<le> length (sliceTo xs (min mx (of_nat (length xs)))) \<and>
         length (sliceTo xs (min mx (of_nat (length xs)))) \<le> 4"
proof -
  let ?e = "min mx (of_nat (length xs))"
  have e0: "0 \<le> ?e" using mx len by simp
  have e2: "2 \<le> ?e" using mx len by simp
  have e4: "?e \<le> 4" using mx by simp
  have f2: "2 \<le> \<lfloor>?e\<rfloor>" using e2 by (simp add: le_floor_iff)
  have f4: "\<lfloor>?e\<rfloor> \<le> 4" using e4 by (simp add: floor_le_iff)
  have "\<lfloor>?e\<rfloor> \<le> \<lfloor>(of_nat (length xs) :: rat)\<rfloor>" by (rule floor_mono) simp
  then have fl: "\<lfloor>?e\<rfloor> \<le> int (length xs)" by simp
  have "length (sliceTo xs ?e) = nat \<lfloor>?e\<rfloor>"
    using fl f2 by (simp add: sliceTo_nonneg[OF e0])
  with f2 f4 show ?thesis by linarith
qed


lemma tryMatchPickAtomic_Some:
  assumes "tryMatchPickAtomic pf now v sched = (Inr (Some picked), v')"
  shows "\<exists>raw. (raw = v \<or> Some raw \<in> set sched) \<and>
           matchPickTxn (effMaxPlayers pf) (effMinPlayersToStart pf) (effQuickStartSeconds pf) now
             (of_int now - effInactiveKickSeconds pf * 1000) raw = Write v' picked"
proof -
  let ?body = "matchPickTxn (effMaxPlayers pf) (effMinPlayersToStart pf) (effQuickStartSeconds pf) now
             (of_int now - effInactiveKickSeconds pf * 1000)"
  show ?thesis
  proof (cases "casLoop MAX_QUEUE_TRANSACTION_RETRIES ?body v sched")
    case (Returned r v1)
    from casLoop_Returned[OF this] have "?body v1 = Return r" by simp
    moreover from assms Returned have "r = Inr (Some picked)"
      by (simp add: tryMatchPickAtomic_def Let_def)
    ultimately show ?thesis
      by (auto simp: matchPickTxn_def Let_def split: if_splits list.splits)
  next
    case (Committed x v1)
    with assms have "x = picked" "v1 = v'" by (simp_all add: tryMatchPickAtomic_def Let_def)
    with casLoop_Committed[OF Committed] show ?thesis by blast
  next
    case (Exhausted v1)
    with assms show ?thesis by (simp add: tryMatchPickAtomic_def Let_def)
  qed
qed

lemma tryMatchPickAtomic_length:
  assumes "tryMatchPickAtomic pf now v sched = (Inr (Some picked), v')"
  shows "2 \<le> length picked \<and> length picked \<le> 4"
proof -
  from tryMatchPickAtomic_Some[OF assms] obtain raw where
    w: "matchPickTxn (effMaxPlayers pf) (effMinPlayersToStart pf) (effQuickStartSeconds pf) now
             (of_int now - effInactiveKickSeconds pf * 1000) raw = Write v' picked" by blast
  let ?q = "filter (notStale (of_int now - effInactiveKickSeconds pf * 1000)) raw"
  from matchPickTxn_Write[OF w] have
    mn: "effMinPlayersToStart pf \<le> of_nat (length ?q)" and
    p: "picked = sliceTo ?q (min (effMaxPlayers pf) (of_nat (length ?q)))"
    by (simp_all add: Let_def)
  from mn effMinPlayersToStart_ge[of pf] have "2 \<le> (of_nat (length ?q) :: rat)" by linarith
  from picked_length[OF conjunct1[OF effMaxPlayers_range] conjunct2[OF effMaxPlayers_range] this]
  show ?thesis unfolding p by blast
qed

lemma update_fresh: "k \<notin> fst ` set al \<Longrightarrow> AList.update k v al = al @ [(k, v)]"
  by (induction al) auto

lemma fold_update_distinct:
  "distinct (map fst (acc @ es)) \<Longrightarrow> fold (\<lambda>(k, v). AList.update k v) es acc = acc @ es"
proof (induction es arbitrary: acc)
  case Nil
  then show ?case by simp
next
  case (Cons e es)
  obtain k v where e: "e = (k, v)" by (cases e)
  from Cons.prems e have fresh: "k \<notin> fst ` set acc" by auto
  from Cons.prems e have "distinct (map fst ((acc @ [(k, v)]) @ es))" by simp
  from Cons.IH[OF this] show ?case using e fresh by (simp add: update_fresh)
qed

lemma fromEntries_distinct: "distinct (map fst es) \<Longrightarrow> fromEntries es = es"
  using fold_update_distinct[of "[]" es] by (simp add: fromEntries_def)

lemma rooms_setUserRoom: "rooms (setUserRoom s uid rid) = rooms s"
  by (simp add: setUserRoom_def)

lemma rooms_fold_setUserRoom:
  "rooms (fold (\<lambda>p st. setUserRoom st (f p) (g p)) ps s) = rooms s"
  by (induction ps arbitrary: s) (simp_all add: rooms_setUserRoom)

lemma maybeStart_rooms:
  assumes "maybeStartMatchForPost pf now newRoomId w s = Inr s'"
  shows "rooms s' = rooms s \<or>
         (\<exists>picked v'. tryMatchPickAtomic pf now (queue s) [] = (Inr (Some picked), v') \<and>
             rooms s' = (rooms s)(newRoomId \<mapsto> newRoom pf now newRoomId w picked))"
proof (cases "tryMatchPickAtomic pf now (queue s) []")
  case (Pair res q')
  show ?thesis
  proof (cases res)
    case (Inl e)
    with assms Pair show ?thesis by (simp add: maybeStartMatchForPost_def)
  next
    case (Inr po)
    show ?thesis
    proof (cases po)
      case None
      with assms Pair Inr show ?thesis by (auto simp: maybeStartMatchForPost_def)
    next
      case (Some picked)
      show ?thesis
      proof (cases "picked = []")
        case True
        with assms Pair Inr Some show ?thesis by (auto simp: maybeStartMatchForPost_def)
      next
        case False
        with assms Pair Inr Some have
          "s' = fold (\<lambda>p st. setUserRoom st (QueueEntry.userId p) (Some newRoomId)) picked
                  (saveRoom (s\<lparr>queue := q'\<rparr>) (newRoom pf now newRoomId w picked))"
          by (simp add: maybeStartMatchForPost_def Let_def)
        then have "rooms s' = (rooms s)(newRoomId \<mapsto> newRoom pf now newRoomId w picked)"
          by (simp add: rooms_fold_setUserRoom saveRoom_def newRoom_def Let_def)
        with Pair Inr Some show ?thesis by blast
      qed
    qed
  qed
qed

lemma picked_distinct:
  assumes "tryMatchPickAtomic pf now v [] = (Inr (Some picked), v')"
    and "distinct (map QueueEntry.userId v)"
  shows "distinct (map QueueEntry.userId picked)"
proof -
  from tryMatchPickAtomic_Some[OF assms(1)] have
    w: "matchPickTxn (effMaxPlayers pf) (effMinPlayersToStart pf) (effQuickStartSeconds pf) now
             (of_int now - effInactiveKickSeconds pf * 1000) v = Write v' picked" by simp
  let ?q = "filter (notStale (of_int now - effInactiveKickSeconds pf * 1000)) v"
  from matchPickTxn_Write[OF w]
  have p: "picked = sliceTo ?q (min (effMaxPlayers pf) (of_nat (length ?q)))"
    by (simp add: Let_def)
  have "0 \<le> min (effMaxPlayers pf) (of_nat (length ?q))"
    using effMaxPlayers_range[of pf] by simp
  then have "picked = take (nat \<lfloor>min (effMaxPlayers pf) (of_nat (length ?q))\<rfloor>) ?q"
    unfolding p by (rule sliceTo_nonneg)
  moreover have "distinct (map QueueEntry.userId ?q)"
    using assms(2) by (simp add: distinct_map_filter)
  ultimately show ?thesis by (simp add: take_map[symmetric] del: take_map)
qed

text \<open>
  Claim C10. Whatever the settings \<open>maxPlayers\<close> and \<open>minPlayersToStart\<close> hold (the
  platform \<open>pf\<close> is arbitrary: a value of any kind, or none), the match pick works with
  a capacity between 2 and 4 and a minimum of at least 2; every pick it returns has
  between 2 and 4 entries, and every room the match start creates has between 2 and 4
  users in its order, who are exactly its players when no user is queued twice.
\<close>

theorem match_start_player_bounds:
  "2 \<le> effMaxPlayers pf \<and> effMaxPlayers pf \<le> 4 \<and> 2 \<le> effMinPlayersToStart pf \<and>
   (\<forall>now v sched picked v'.
      tryMatchPickAtomic pf now v sched = (Inr (Some picked), v') \<longrightarrow>
        2 \<le> length picked \<and> length picked \<le> 4) \<and>
   (\<forall>now newRoomId w s s'.
      maybeStartMatchForPost pf now newRoomId w s = Inr s' \<longrightarrow>
        rooms s' = rooms s \<or>
        (\<exists>room. rooms s' = (rooms s)(newRoomId \<mapsto> room) \<and>
           2 \<le> length (order room) \<and> length (order room) \<le> 4 \<and>
           (distinct (map QueueEntry.userId (queue s)) \<longrightarrow>
              map fst (players room) = order room \<and> distinct (order room) \<and>
              2 \<le> length (players room) \<and> length (players room) \<le> 4)))"
proof (intro conjI allI impI)
  show "2 \<le> effMaxPlayers pf" "effMaxPlayers pf \<le> 4"
    using effMaxPlayers_range[of pf] by simp_all
  show "2 \<le> effMinPlayersToStart pf" by (rule effMinPlayersToStart_ge)
next
  fix now v sched picked v'
  assume "tryMatchPickAtomic pf now v sched = (Inr (Some picked), v')"
  from tryMatchPickAtomic_length[OF this]
  show "2 \<le> length picked" "length picked \<le> 4" by simp_all
next
  fix now newRoomId w s s'
  assume a: "maybeStartMatchForPost pf now newRoomId w s = Inr s'"
  from maybeStart_rooms[OF a] show "rooms s' = rooms s \<or>
        (\<exists>room. rooms s' = (rooms s)(newRoomId \<mapsto> room) \<and>
           2 \<le> length (order room) \<and> length (order room) \<le> 4 \<and>
           (distinct (map QueueEntry.userId (queue s)) \<longrightarrow>
              map fst (players room) = order room \<and> distinct (order room) \<and>
              2 \<le> length (players room) \<and> length (players room) \<le> 4))"
  proof
    assume "rooms s' = rooms s" then show ?thesis by simp
  next
    assume "\<exists>picked v'. tryMatchPickAtomic pf now (queue s) [] = (Inr (Some picked), v') \<and>
             rooms s' = (rooms s)(newRoomId \<mapsto> newRoom pf now newRoomId w picked)"
    then obtain picked v' where
      t: "tryMatchPickAtomic pf now (queue s) [] = (Inr (Some picked), v')" and
      r: "rooms s' = (rooms s)(newRoomId \<mapsto> newRoom pf now newRoomId w picked)" by blast
    let ?room = "newRoom pf now newRoomId w picked"
    have ord: "order ?room = map QueueEntry.userId picked"
      by (simp add: newRoom_def Let_def)
    have len: "2 \<le> length picked \<and> length picked \<le> 4" by (rule tryMatchPickAtomic_length[OF t])
    have d: "distinct (map QueueEntry.userId (queue s)) \<longrightarrow>
              map fst (players ?room) = order ?room \<and> distinct (order ?room) \<and>
              2 \<le> length (players ?room) \<and> length (players ?room) \<le> 4"
    proof
      assume "distinct (map QueueEntry.userId (queue s))"
      from picked_distinct[OF t this] have dp: "distinct (map QueueEntry.userId picked)" .
      then have "distinct (map fst (map (\<lambda>p. (QueueEntry.userId p,
                       \<lparr>Player.userId = QueueEntry.userId p, userName = QueueEntry.userName p,
                        score = 0, lastSeen = QueueEntry.lastSeen p\<rparr>)) picked))"
        by (simp add: comp_def)
      from fromEntries_distinct[OF this] dp len
      show "map fst (players ?room) = order ?room \<and> distinct (order ?room) \<and>
              2 \<le> length (players ?room) \<and> length (players ?room) \<le> 4"
        by (simp add: newRoom_def Let_def comp_def)
    qed
    from r ord len d show ?thesis by auto
  qed
qed

theorem match_start_player_bounds_witness:
  "tryMatchPickAtomic examplePlatform 100000 exampleQueue [] = (Inr (Some (take 2 exampleQueue)), []) \<and>
   effMaxPlayers examplePlatform = 4 \<and> effMinPlayersToStart examplePlatform = 2 \<and>
   2 \<le> length (take 2 exampleQueue) \<and> length (take 2 exampleQueue) \<le> 4"
proof -
  have run: "tryMatchPickAtomic examplePlatform 100000 exampleQueue [] =
               (Inr (Some (take 2 exampleQueue)), [])"
    by code_simp
  have cap: "effMaxPlayers examplePlatform = 4" "effMinPlayersToStart examplePlatform = 2"
    by (simp_all add: effMaxPlayers_def effMinPlayersToStart_def getSubredditSettingNumber_def
          examplePlatform_def)
  from match_start_player_bounds[of examplePlatform] run
  have "2 \<le> length (take 2 exampleQueue) \<and> length (take 2 exampleQueue) \<le> 4" by blast
  with run cap show ?thesis by simp
qed

section \<open>The match pick\<close>

lemma matchPickTxn_below_min:
  "of_nat (length (filter (notStale cutoff) raw)) < mn \<Longrightarrow>
     matchPickTxn mx mn qs now cutoff raw = Return (Inr None)"
  by (simp add: matchPickTxn_def Let_def)

lemma matchPickTxn_at_least_min:
  assumes "mn \<le> of_nat (length (filter (notStale cutoff) raw))" and "0 < mn" and "0 \<le> mx"
  shows "matchPickTxn mx mn qs now cutoff raw =
     (let q = filter (notStale cutoff) raw;
          k = nat \<lfloor>min mx (of_nat (length q))\<rfloor>
      in if mx \<le> of_nat (length q) \<or>
            (mn \<le> of_nat (length q) \<and> qs * 1000 \<le> of_int (now - joinedAt (hd q)))
         then Write (drop k q) (take k q) else Return (Inr None))"
proof -
  define q where "q = filter (notStale cutoff) raw"
  define k where "k = nat \<lfloor>min mx (of_nat (length q))\<rfloor>"
  from assms have ge: "mn \<le> of_nat (length q)" by (simp add: q_def)
  with assms(2) have "q \<noteq> []" by auto
  then obtain q0 rest where q: "q = q0 # rest" by (cases q) auto
  have e0: "0 \<le> min mx (of_nat (length q))" using assms(3) by simp
  have sl: "sliceTo q (min mx (of_nat (length q))) = take k q"
    unfolding k_def by (rule sliceTo_nonneg[OF e0])
  have "\<lfloor>min mx (of_nat (length q))\<rfloor> \<le> \<lfloor>(of_nat (length q) :: rat)\<rfloor>" by (rule floor_mono) simp
  then have "k \<le> length q" by (simp add: k_def)
  then have len: "length (take k q) = k" by simp
  have not_lt: "\<not> of_nat (length q) < mn" using ge by simp
  have hdq: "hd q = q0" by (simp add: q)
  have "matchPickTxn mx mn qs now cutoff raw =
          (if mx \<le> of_nat (length q) \<or> (mn \<le> of_nat (length q) \<and> qs * 1000 \<le> of_int (now - joinedAt q0))
           then Write (drop (length (sliceTo q (min mx (of_nat (length q))))) q)
                      (sliceTo q (min mx (of_nat (length q))))
           else Return (Inr None))"
    unfolding matchPickTxn_def Let_def q_def[symmetric]
    using not_lt by (simp only: if_False q list.case) simp
  then show ?thesis
    unfolding Let_def q_def[symmetric] k_def[symmetric] sl len hdq .
qed

lemma sorted_take_le_drop:
  "sorted (map f xs) \<Longrightarrow> a \<in> set (take k xs) \<Longrightarrow> b \<in> set (drop k xs) \<Longrightarrow> f a \<le> f b"
proof -
  assume s: "sorted (map f xs)" and a: "a \<in> set (take k xs)" and b: "b \<in> set (drop k xs)"
  have "map f xs = map f (take k xs) @ map f (drop k xs)"
    by (simp add: map_append[symmetric] del: map_append)
  with s have "sorted (map f (take k xs) @ map f (drop k xs))" by simp
  then have "\<forall>x\<in>set (map f (take k xs)). \<forall>y\<in>set (map f (drop k xs)). x \<le> y"
    by (simp add: sorted_append)
  with a b show ?thesis by auto
qed

lemma sorted_hd_least:
  "sorted (map f xs) \<Longrightarrow> q \<in> set xs \<Longrightarrow> f (hd xs) \<le> f q"
  by (cases xs) auto

lemma sorted_filter_joinedAt:
  "sorted (map joinedAt raw) \<Longrightarrow> sorted (map joinedAt (filter P raw))"
  by (rule sorted_filter)

lemma upsertQueue_sorted: "sorted (map joinedAt (upsertQueue uid uname now cutoff raw))"
  by (simp add: upsertQueue_def Let_def)

lemma tryMatchPickAtomic_quiet:
  "tryMatchPickAtomic pf now v [] =
     (case matchPickTxn (effMaxPlayers pf) (effMinPlayersToStart pf) (effQuickStartSeconds pf) now
             (of_int now - effInactiveKickSeconds pf * 1000) v of
        Return r \<Rightarrow> (r, v)
      | Write rem picked \<Rightarrow> (Inr (Some picked), rem))"
  by (simp add: tryMatchPickAtomic_def Let_def MAX_QUEUE_TRANSACTION_RETRIES_def eval_nat_numeral
        split: txn.splits)

lemma tryMatchPickAtomic_atomic:
  assumes "tryMatchPickAtomic pf now v sched = (Inr (Some picked), v')"
  shows "length (conflictWrites sched) < 5 \<and>
         matchPickTxn (effMaxPlayers pf) (effMinPlayersToStart pf) (effQuickStartSeconds pf) now
             (of_int now - effInactiveKickSeconds pf * 1000) (last (v # conflictWrites sched))
           = Write v' picked"
proof -
  let ?body = "matchPickTxn (effMaxPlayers pf) (effMinPlayersToStart pf) (effQuickStartSeconds pf) now
             (of_int now - effInactiveKickSeconds pf * 1000)"
  show ?thesis
  proof (cases "casLoop MAX_QUEUE_TRANSACTION_RETRIES ?body v sched")
    case (Returned r v1)
    from casLoop_Returned[OF this] have "?body v1 = Return r" by simp
    moreover from assms Returned have "r = Inr (Some picked)"
      by (simp add: tryMatchPickAtomic_def Let_def)
    ultimately show ?thesis
      by (auto simp: matchPickTxn_def Let_def split: if_splits list.splits)
  next
    case (Committed x v1)
    with assms have "x = picked" "v1 = v'" by (simp_all add: tryMatchPickAtomic_def Let_def)
    with casLoop_Committed_last[OF Committed] show ?thesis
      by (simp add: MAX_QUEUE_TRANSACTION_RETRIES_def)
  next
    case (Exhausted v1)
    with assms show ?thesis by (simp add: tryMatchPickAtomic_def Let_def)
  qed
qed

lemma tryMatchPickAtomic_no_pick:
  assumes "tryMatchPickAtomic pf now v sched = (r, v')" and "\<forall>picked. r \<noteq> Inr (Some picked)"
  shows "v' \<in> set (v # conflictWrites sched)"
proof -
  let ?body = "matchPickTxn (effMaxPlayers pf) (effMinPlayersToStart pf) (effQuickStartSeconds pf) now
             (of_int now - effInactiveKickSeconds pf * 1000)"
  show ?thesis
  proof (cases "casLoop MAX_QUEUE_TRANSACTION_RETRIES ?body v sched")
    case (Returned r1 v1)
    with assms have "v1 = v'" by (simp add: tryMatchPickAtomic_def Let_def)
    with casLoop_unwritten[of _ ?body v sched r1 v'] Returned show ?thesis by blast
  next
    case (Committed x v1)
    with assms show ?thesis by (auto simp: tryMatchPickAtomic_def Let_def)
  next
    case (Exhausted v1)
    with assms have "v1 = v'" by (simp add: tryMatchPickAtomic_def Let_def)
    with casLoop_unwritten[of _ ?body v sched _ v'] Exhausted show ?thesis by blast
  qed
qed


text \<open>
  Claim C2. One evaluation of the match pick reads the queue \<open>raw\<close>, drops the stale
  entries, and
  \<^item> starts no match when fewer entries than the minimum are left;
  \<^item> otherwise starts a match exactly when the size reaches the capacity, or reaches the
    minimum while the first entry has waited for the quick-start timeout;
  \<^item> on a match returns the first \<open>k\<close> entries and stores the rest, in the order of the
    queue, where \<open>k\<close> is the smaller of capacity and size (rounded down, and exactly
    \<open>min capacity size\<close> for a whole capacity);
  \<^item> when the stored queue is ascending in \<open>joinedAt\<close> (every upsert sorts it), the first
    entry is the oldest, the picked entries are ascending, and none of them joined later
    than an entry left behind.
  The read and the removal are one compare-and-swap transaction. Under every schedule of
  concurrent writes to the queue key, a pick is returned only by one of the five
  attempts, and only by one whose \<open>exec\<close> found the key as the attempt had read it: the
  pick and the stored rest are the evaluation of the last value that a concurrent
  request wrote before that attempt (the initial value when there was none), and the rest
  replaces that very value. When no pick is returned the request has written nothing:
  the key holds its initial value or what a concurrent request wrote. With no concurrent
  write the loop is the single evaluation.
\<close>

theorem match_pick_evaluation:
  fixes pf :: platform and now :: int
  defines "cap \<equiv> effMaxPlayers pf"
    and "mn \<equiv> effMinPlayersToStart pf"
    and "timeout \<equiv> effQuickStartSeconds pf * 1000"
    and "cutoff \<equiv> of_int now - effInactiveKickSeconds pf * 1000"
  defines "body \<equiv> matchPickTxn (effMaxPlayers pf) (effMinPlayersToStart pf) (effQuickStartSeconds pf) now cutoff"
  shows
    "(\<forall>raw.
        let q = filter (notStale cutoff) raw;
            size = length q;
            k = nat \<lfloor>min cap (of_nat size)\<rfloor>
        in (of_nat size < mn \<longrightarrow> body raw = Return (Inr None)) \<and>
           (mn \<le> of_nat size \<longrightarrow>
              (if cap \<le> of_nat size \<or> (mn \<le> of_nat size \<and> timeout \<le> of_int (now - joinedAt (hd q)))
               then body raw = Write (drop k q) (take k q)
               else body raw = Return (Inr None))) \<and>
           (\<forall>c::nat. cap = of_nat c \<longrightarrow> k = min c size) \<and>
           (sorted (map joinedAt raw) \<longrightarrow>
              sorted (map joinedAt (take k q)) \<and>
              (\<forall>e \<in> set q. joinedAt (hd q) \<le> joinedAt e) \<and>
              (\<forall>a \<in> set (take k q). \<forall>b \<in> set (drop k q). joinedAt a \<le> joinedAt b))) \<and>
     (\<forall>v sched picked v'.
        tryMatchPickAtomic pf now v sched = (Inr (Some picked), v') \<longrightarrow>
          length (conflictWrites sched) < MAX_QUEUE_TRANSACTION_RETRIES \<and>
          body (last (v # conflictWrites sched)) = Write v' picked) \<and>
     (\<forall>v sched r v'.
        tryMatchPickAtomic pf now v sched = (r, v') \<and> (\<forall>picked. r \<noteq> Inr (Some picked)) \<longrightarrow>
          v' \<in> set (v # conflictWrites sched)) \<and>
     (\<forall>v. tryMatchPickAtomic pf now v [] =
            (case body v of Return r \<Rightarrow> (r, v) | Write rem picked \<Rightarrow> (Inr (Some picked), rem)))"
proof (intro conjI allI)
  fix raw
  let ?q = "filter (notStale cutoff) raw"
  let ?k = "nat \<lfloor>min cap (of_nat (length ?q))\<rfloor>"
  have cap: "2 \<le> cap" "cap \<le> 4" using effMaxPlayers_range[of pf] by (simp_all add: cap_def)
  have mn: "2 \<le> mn" using effMinPlayersToStart_ge[of pf] by (simp add: mn_def)
  have a: "of_nat (length ?q) < mn \<longrightarrow> body raw = Return (Inr None)"
    by (simp add: body_def mn_def matchPickTxn_below_min)
  have b: "mn \<le> of_nat (length ?q) \<longrightarrow>
              (if cap \<le> of_nat (length ?q) \<or> (mn \<le> of_nat (length ?q) \<and> timeout \<le> of_int (now - joinedAt (hd ?q)))
               then body raw = Write (drop ?k ?q) (take ?k ?q)
               else body raw = Return (Inr None))"
  proof
    assume h: "mn \<le> of_nat (length ?q)"
    have "0 < mn" "0 \<le> cap" using mn cap by simp_all
    from matchPickTxn_at_least_min[of mn cutoff raw cap "effQuickStartSeconds pf" now,
            OF h this]
    show "if cap \<le> of_nat (length ?q) \<or> (mn \<le> of_nat (length ?q) \<and> timeout \<le> of_int (now - joinedAt (hd ?q)))
               then body raw = Write (drop ?k ?q) (take ?k ?q)
               else body raw = Return (Inr None)"
      by (simp add: body_def cap_def mn_def timeout_def Let_def)
  qed
  have c: "\<forall>c::nat. cap = of_nat c \<longrightarrow> ?k = min c (length ?q)"
  proof (intro allI impI)
    fix c :: nat assume "cap = of_nat c"
    then have "min cap (of_nat (length ?q)) = (of_nat (min c (length ?q)) :: rat)" by simp
    then show "?k = min c (length ?q)" by (simp only: floor_of_nat nat_int)
  qed
  have d: "sorted (map joinedAt raw) \<longrightarrow>
              sorted (map joinedAt (take ?k ?q)) \<and>
              (\<forall>e \<in> set ?q. joinedAt (hd ?q) \<le> joinedAt e) \<and>
              (\<forall>a \<in> set (take ?k ?q). \<forall>b \<in> set (drop ?k ?q). joinedAt a \<le> joinedAt b)"
  proof
    assume "sorted (map joinedAt raw)"
    then have s: "sorted (map joinedAt ?q)" by (rule sorted_filter)
    then have "sorted (take ?k (map joinedAt ?q))" by (rule sorted_wrt_take)
    then have s1: "sorted (map joinedAt (take ?k ?q))" by (simp add: take_map)
    from s have s2: "\<forall>e \<in> set ?q. joinedAt (hd ?q) \<le> joinedAt e"
      using sorted_hd_least[of joinedAt ?q] by blast
    from s have s3: "\<forall>a \<in> set (take ?k ?q). \<forall>b \<in> set (drop ?k ?q). joinedAt a \<le> joinedAt b"
      using sorted_take_le_drop[of joinedAt ?q] by blast
    from s1 s2 s3 show "sorted (map joinedAt (take ?k ?q)) \<and>
              (\<forall>e \<in> set ?q. joinedAt (hd ?q) \<le> joinedAt e) \<and>
              (\<forall>a \<in> set (take ?k ?q). \<forall>b \<in> set (drop ?k ?q). joinedAt a \<le> joinedAt b)"
      by blast
  qed
  from a b c d show "let q = filter (notStale cutoff) raw;
            size = length q;
            k = nat \<lfloor>min cap (of_nat size)\<rfloor>
        in (of_nat size < mn \<longrightarrow> body raw = Return (Inr None)) \<and>
           (mn \<le> of_nat size \<longrightarrow>
              (if cap \<le> of_nat size \<or> (mn \<le> of_nat size \<and> timeout \<le> of_int (now - joinedAt (hd q)))
               then body raw = Write (drop k q) (take k q)
               else body raw = Return (Inr None))) \<and>
           (\<forall>c::nat. cap = of_nat c \<longrightarrow> k = min c size) \<and>
           (sorted (map joinedAt raw) \<longrightarrow>
              sorted (map joinedAt (take k q)) \<and>
              (\<forall>e \<in> set q. joinedAt (hd q) \<le> joinedAt e) \<and>
              (\<forall>a \<in> set (take k q). \<forall>b \<in> set (drop k q). joinedAt a \<le> joinedAt b))"
    unfolding Let_def by blast
next
  fix v sched picked v'
  show "tryMatchPickAtomic pf now v sched = (Inr (Some picked), v') \<longrightarrow>
          length (conflictWrites sched) < MAX_QUEUE_TRANSACTION_RETRIES \<and>
          body (last (v # conflictWrites sched)) = Write v' picked"
    using tryMatchPickAtomic_atomic[of pf now v sched picked v']
    by (simp add: body_def cutoff_def MAX_QUEUE_TRANSACTION_RETRIES_def)
next
  fix v sched r v'
  show "tryMatchPickAtomic pf now v sched = (r, v') \<and> (\<forall>picked. r \<noteq> Inr (Some picked)) \<longrightarrow>
          v' \<in> set (v # conflictWrites sched)"
    using tryMatchPickAtomic_no_pick[of pf now v sched r v'] by blast
next
  fix v
  show "tryMatchPickAtomic pf now v [] =
            (case body v of Return r \<Rightarrow> (r, v) | Write rem picked \<Rightarrow> (Inr (Some picked), rem))"
    by (simp add: tryMatchPickAtomic_quiet body_def cutoff_def)
qed


theorem match_pick_evaluation_witness:
  "effMinPlayersToStart examplePlatform \<le> of_nat (length (filter (notStale 80000) exampleQueue)) \<and>
   sorted (map joinedAt exampleQueue) \<and>
   tryMatchPickAtomic examplePlatform 100000 exampleQueue [] = (Inr (Some (take 2 exampleQueue)), []) \<and>
   matchPickTxn (effMaxPlayers examplePlatform) (effMinPlayersToStart examplePlatform)
      (effQuickStartSeconds examplePlatform) 100000 80000 exampleQueue
     = Write [] (take 2 exampleQueue) \<and>
   sorted (map joinedAt (take 2 exampleQueue)) \<and>
   tryMatchPickAtomic examplePlatform 100000 exampleQueue [Some (take 2 exampleQueue), None]
     = (Inr (Some (take 2 exampleQueue)), []) \<and>
   matchPickTxn (effMaxPlayers examplePlatform) (effMinPlayersToStart examplePlatform)
      (effQuickStartSeconds examplePlatform) 100000 80000 (take 2 exampleQueue)
     = Write [] (take 2 exampleQueue) \<and>
   tryMatchPickAtomic examplePlatform 100000 exampleQueue [Some []] = (Inr None, []) \<and>
   [] \<in> set (exampleQueue # conflictWrites [Some []])"
proof -
  have cut: "of_int 100000 - effInactiveKickSeconds examplePlatform * 1000 = (80000::rat)"
    by (simp add: effInactiveKickSeconds_def getSubredditSettingNumber_def examplePlatform_def)
  have q: "filter (notStale 80000) exampleQueue = take 2 exampleQueue" by code_simp
  have len: "length (take 2 exampleQueue) = 2" by code_simp
  have len3: "length exampleQueue = 3" by code_simp
  have mn: "effMinPlayersToStart examplePlatform = 2" by code_simp
  have cap: "effMaxPlayers examplePlatform = 4" by code_simp
  have srt: "sorted (map joinedAt exampleQueue)" by code_simp
  have run: "tryMatchPickAtomic examplePlatform 100000 exampleQueue [] =
               (Inr (Some (take 2 exampleQueue)), [])" by code_simp
  have race: "tryMatchPickAtomic examplePlatform 100000 exampleQueue [Some (take 2 exampleQueue), None]
     = (Inr (Some (take 2 exampleQueue)), [])" by code_simp
  have lost: "tryMatchPickAtomic examplePlatform 100000 exampleQueue [Some []] = (Inr None, [])"
    by code_simp
  note inst = match_pick_evaluation[where pf = examplePlatform and now = 100000, unfolded cut]
  from inst run have
    "matchPickTxn (effMaxPlayers examplePlatform) (effMinPlayersToStart examplePlatform)
         (effQuickStartSeconds examplePlatform) 100000 80000 (last (exampleQueue # conflictWrites []))
       = Write [] (take 2 exampleQueue)"
    by blast
  then have body: "matchPickTxn (effMaxPlayers examplePlatform) (effMinPlayersToStart examplePlatform)
         (effQuickStartSeconds examplePlatform) 100000 80000 exampleQueue = Write [] (take 2 exampleQueue)"
    by simp
  from inst race have
    "matchPickTxn (effMaxPlayers examplePlatform) (effMinPlayersToStart examplePlatform)
         (effQuickStartSeconds examplePlatform) 100000 80000
         (last (exampleQueue # conflictWrites [Some (take 2 exampleQueue), None]))
       = Write [] (take 2 exampleQueue)"
    by blast
  then have body2: "matchPickTxn (effMaxPlayers examplePlatform) (effMinPlayersToStart examplePlatform)
         (effQuickStartSeconds examplePlatform) 100000 80000 (take 2 exampleQueue)
       = Write [] (take 2 exampleQueue)"
    by simp
  have np: "\<forall>picked. (Inr None :: js_error + QueueEntry list option) \<noteq> Inr (Some picked)" by simp
  from inst lost np have kept: "[] \<in> set (exampleQueue # conflictWrites [Some []])"
    by blast
  from inst have "let q = filter (notStale 80000) exampleQueue; size = length q;
            k = nat \<lfloor>min (effMaxPlayers examplePlatform) (of_nat size)\<rfloor>
         in sorted (map joinedAt exampleQueue) \<longrightarrow> sorted (map joinedAt (take k q))"
    unfolding Let_def by blast
  with srt have s2: "sorted (map joinedAt (take 2 exampleQueue))"
    by (simp add: Let_def q len cap len3)
  from mn q len srt run body s2 race body2 lost kept show ?thesis by simp
qed

section \<open>Retries and fallbacks of the queue operations\<close>

lemma casLoop_always_write:
  assumes "\<And>raw. body raw = Write (f raw) (g raw)"
  shows "casLoop n body v sched =
           (let ws = conflictWrites sched
            in if length ws < n then Committed (g (last (v # ws))) (f (last (v # ws)))
               else Exhausted (last (v # take n ws)))"
proof (induction n arbitrary: v sched)
  case 0
  then show ?case by simp
next
  case (Suc n)
  show ?case
  proof (cases sched)
    case Nil
    then show ?thesis by (simp add: assms)
  next
    case (Cons a rest)
    show ?thesis
    proof (cases a)
      case None
      with Cons show ?thesis by (simp add: assms)
    next
      case (Some w)
      with Cons have "casLoop (Suc n) body v sched = casLoop n body w rest"
        by (simp add: assms)
      also have "\<dots> = (let ws = conflictWrites rest
            in if length ws < n then Committed (g (last (w # ws))) (f (last (w # ws)))
               else Exhausted (last (w # take n ws)))"
        by (rule Suc.IH)
      finally show ?thesis using Cons Some by (simp add: Let_def)
    qed
  qed
qed

lemma findIndex_None: "findIndex P xs = None \<longleftrightarrow> (\<forall>x \<in> set xs. \<not> P x)"
  by (induction xs) auto

lemma findIndex_Some: "findIndex P xs = Some i \<Longrightarrow> i < length xs \<and> P (xs ! i)"
proof (induction xs arbitrary: i)
  case Nil
  then show ?case by simp
next
  case (Cons x xs)
  then show ?case by (auto split: if_splits)
qed

lemma upsertQueue_member: "uid \<in> set (map QueueEntry.userId (upsertQueue uid uname now cutoff raw))"
proof (cases "findIndex (\<lambda>q. QueueEntry.userId q = uid) (filter (notStale cutoff) raw)")
  case None
  then show ?thesis by (simp add: upsertQueue_def Let_def)
next
  case (Some i)
  let ?q = "filter (notStale cutoff) raw"
  from findIndex_Some[OF Some] have i: "i < length ?q" by simp
  let ?e = "(?q ! i)\<lparr>QueueEntry.lastSeen := now, QueueEntry.userName := uname\<rparr>"
  from findIndex_Some[OF Some] have eq: "QueueEntry.userId ?e = uid" by simp
  have "?e \<in> set (?q[i := ?e])" using i by (rule set_update_memI)
  then have "QueueEntry.userId ?e \<in> QueueEntry.userId ` set (?q[i := ?e])" by (rule imageI)
  then have "uid \<in> QueueEntry.userId ` set (?q[i := ?e])" by (simp only: eq)
  with Some show ?thesis by (simp add: upsertQueue_def Let_def)
qed

lemma queueUpsertAtomic_eq:
  "queueUpsertAtomic uid uname now kick v sched =
     (let raw = last (v # take 5 (conflictWrites sched));
          q = upsertQueue uid uname now (of_int now - kick * 1000) raw
      in (q, q))"
proof -
  let ?c = "of_int now - kick * 1000"
  let ?body = "\<lambda>raw. let queue = upsertQueue uid uname now ?c raw
                       in (Write queue queue :: (QueueEntry list, QueueEntry list, QueueEntry list) txn)"
  have b: "\<And>raw. ?body raw = Write (upsertQueue uid uname now ?c raw) (upsertQueue uid uname now ?c raw)"
    by (simp add: Let_def)
  show ?thesis
    unfolding queueUpsertAtomic_def Let_def
    by (simp add: casLoop_always_write[of ?body, OF b, unfolded Let_def] MAX_QUEUE_TRANSACTION_RETRIES_def Let_def)
qed

lemma queueRemoveUserAtomic_eq:
  "queueRemoveUserAtomic uid v sched =
     filter (\<lambda>q. QueueEntry.userId q \<noteq> uid) (last (v # take 5 (conflictWrites sched)))"
proof -
  let ?body = "\<lambda>raw. (Write (filter (\<lambda>q. QueueEntry.userId q \<noteq> uid) raw) ()
                            :: (QueueEntry list, unit, unit) txn)"
  show ?thesis
    unfolding queueRemoveUserAtomic_def Let_def
    by (simp add: casLoop_always_write[of ?body "\<lambda>raw. filter (\<lambda>q. QueueEntry.userId q \<noteq> uid) raw" "\<lambda>_. ()", unfolded Let_def]
          MAX_QUEUE_TRANSACTION_RETRIES_def)
qed

lemma queueFilterStaleAtomic_eq:
  "queueFilterStaleAtomic cutoff v sched =
     (let ws = conflictWrites sched; raw = last (v # take 5 ws)
      in if length ws < 5 then (True, filter (notStale cutoff) raw) else (False, raw))"
proof -
  let ?body = "\<lambda>raw. (Write (filter (notStale cutoff) raw) True :: (QueueEntry list, bool, bool) txn)"
  show ?thesis
    unfolding queueFilterStaleAtomic_def Let_def
    by (simp add: casLoop_always_write[of ?body "\<lambda>raw. filter (notStale cutoff) raw" "\<lambda>_. True", unfolded Let_def]
          MAX_QUEUE_TRANSACTION_RETRIES_def)
qed

text \<open>
  Claim C9, as the code has it. Under every schedule of concurrent writes, the join
  upsert and the explicit removal retry their transaction up to 5 times and then fall
  back to a plain read and write: in every case the stored queue is their change applied
  to the value they last read, so the caller is in the queue after an upsert and out of
  it after a removal. The stale-entry sweep also retries up to 5 times, but has no
  fallback: after 5 conflicts it returns \<open>False\<close> and leaves the key as the last
  concurrent write left it.
\<close>

theorem queue_mutations_retry_then_fallback:
  "queueUpsertAtomic uid uname now kick v sched =
     (let raw = last (v # take MAX_QUEUE_TRANSACTION_RETRIES (conflictWrites sched));
          q = upsertQueue uid uname now (of_int now - kick * 1000) raw
      in (q, q)) \<and>
   uid \<in> set (map QueueEntry.userId (snd (queueUpsertAtomic uid uname now kick v sched))) \<and>
   queueRemoveUserAtomic uid v sched =
     filter (\<lambda>q. QueueEntry.userId q \<noteq> uid)
       (last (v # take MAX_QUEUE_TRANSACTION_RETRIES (conflictWrites sched))) \<and>
   uid \<notin> set (map QueueEntry.userId (queueRemoveUserAtomic uid v sched)) \<and>
   queueFilterStaleAtomic cutoff v sched =
     (let ws = conflictWrites sched; raw = last (v # take MAX_QUEUE_TRANSACTION_RETRIES ws)
      in if length ws < MAX_QUEUE_TRANSACTION_RETRIES then (True, filter (notStale cutoff) raw)
         else (False, raw))"
proof -
  have r: "uid \<notin> set (map QueueEntry.userId (queueRemoveUserAtomic uid v sched))"
    by (auto simp: queueRemoveUserAtomic_eq)
  have u: "uid \<in> set (map QueueEntry.userId (snd (queueUpsertAtomic uid uname now kick v sched)))"
    unfolding queueUpsertAtomic_eq Let_def snd_conv by (rule upsertQueue_member)
  have five: "MAX_QUEUE_TRANSACTION_RETRIES = 5" by (simp add: MAX_QUEUE_TRANSACTION_RETRIES_def)
  show ?thesis
    unfolding five
    using r u queueUpsertAtomic_eq[of uid uname now kick v sched]
      queueRemoveUserAtomic_eq[of uid v sched] queueFilterStaleAtomic_eq[of cutoff v sched]
    by blast
qed

theorem queue_mutations_retry_then_fallback_witness:
  "''t2_bob'' \<notin> set (map QueueEntry.userId
      (queueRemoveUserAtomic ''t2_bob'' exampleQueue
         [Some exampleQueue, Some exampleQueue, Some exampleQueue, Some exampleQueue, Some exampleQueue])) \<and>
   queueRemoveUserAtomic ''t2_bob'' exampleQueue
         [Some exampleQueue, Some exampleQueue, Some exampleQueue, Some exampleQueue, Some exampleQueue]
     = [exampleQueue ! 0, exampleQueue ! 2] \<and>
   ''t2_dave'' \<in> set (map QueueEntry.userId
      (snd (queueUpsertAtomic ''t2_dave'' ''dave'' 100000 20 exampleQueue
         [Some exampleQueue, Some exampleQueue, Some exampleQueue, Some exampleQueue, Some exampleQueue])))"
proof -
  let ?sched = "[Some exampleQueue, Some exampleQueue, Some exampleQueue, Some exampleQueue, Some exampleQueue]"
  have a: "''t2_bob'' \<notin> set (map QueueEntry.userId (queueRemoveUserAtomic ''t2_bob'' exampleQueue ?sched))"
    using queue_mutations_retry_then_fallback[of "''t2_bob''" "''bob''" 0 0 exampleQueue ?sched 0]
    by blast
  have b: "''t2_dave'' \<in> set (map QueueEntry.userId
      (snd (queueUpsertAtomic ''t2_dave'' ''dave'' 100000 20 exampleQueue ?sched)))"
    using queue_mutations_retry_then_fallback[of "''t2_dave''" "''dave''" 100000 20 exampleQueue ?sched 0]
    by blast
  have c: "queueRemoveUserAtomic ''t2_bob'' exampleQueue ?sched = [exampleQueue ! 0, exampleQueue ! 2]"
    by code_simp
  from a b c show ?thesis by simp
qed

text \<open>
  The claim as stated fails for the sweep: five conflicting attempts in a row, each
  finding the queue with its stale entry, end with \<open>False\<close> and the stale entry still
  stored.
\<close>

theorem stale_sweep_no_fallback_counterexample:
  "queueFilterStaleAtomic 80000 exampleQueue
      [Some exampleQueue, Some exampleQueue, Some exampleQueue, Some exampleQueue, Some exampleQueue]
     = (False, exampleQueue) \<and>
   filter (notStale 80000) exampleQueue \<noteq> exampleQueue"
  by code_simp

section \<open>The round transition\<close>

lemma findIndex_distinct_nth:
  "distinct xs \<Longrightarrow> i < length xs \<Longrightarrow> findIndex (\<lambda>y. y = xs ! i) xs = Some i"
proof (induction xs arbitrary: i)
  case Nil
  then show ?case by simp
next
  case (Cons x xs)
  show ?case
  proof (cases i)
    case 0
    then show ?thesis by simp
  next
    case (Suc j)
    with Cons.prems have j: "j < length xs" and d: "distinct xs" and nx: "x \<noteq> xs ! j"
      by (auto simp: nth_mem)
    from Cons.IH[OF d j] Suc nx show ?thesis by auto
  qed
qed

lemma nextDrawer_rotate:
  assumes "distinct ord" and "i < length ord"
  shows "nextDrawer ord (Some (ord ! i)) = Some (ord ! ((i + 1) mod length ord))"
proof -
  from assms(2) obtain first rest where o: "ord = first # rest" by (cases ord) auto
  have idx: "indexOf ord (ord ! i) = int i"
    by (simp add: indexOf_def findIndex_distinct_nth[OF assms])
  have "(int i + 1) mod int (length ord) = int ((i + 1) mod length ord)"
    by (simp add: zmod_int add.commute)
  then have "nat ((int i + 1) mod int (length ord)) = (i + 1) mod length ord"
    by (simp only: nat_int)
  with idx have "nat ((indexOf ord (ord ! i) + 1) mod int (length ord)) = (i + 1) mod length ord"
    by simp
  then have "nextDrawer (first # rest) (Some ((first # rest) ! i))
               = Some ((first # rest) ! ((i + 1) mod length (first # rest)))"
    unfolding nextDrawer_def Let_def o list.case option.case by (simp only:)
  then show ?thesis by (simp only: o)
qed

lemma indexOf_absent: "x \<notin> set xs \<Longrightarrow> indexOf xs x = - 1"
proof -
  assume "x \<notin> set xs"
  then have "findIndex (\<lambda>y. y = x) xs = None" by (auto simp: findIndex_None)
  then show ?thesis by (simp add: indexOf_def)
qed

lemma effRoundSeconds_ge: "20 \<le> effRoundSeconds pf"
  by (simp add: effRoundSeconds_def)

text \<open>
  What \<open>advanceOrEndRound\<close> does to a room. It ends the room when the round number has
  reached \<open>maxRounds\<close>: the status becomes \<open>Ended\<close> and word, drawer and deadline are
  cleared. Otherwise it starts the next round: the round number grows by one, the word
  is the one just drawn, the deadline is the clock reading plus the round duration (at
  least 20 seconds), the resolution mark and the list of correct guessers are cleared,
  and when the current drawer stands at position \<open>i\<close> of an order without repetition,
  the new drawer is the entry at position \<open>i + 1\<close>, wrapping around.
\<close>

lemma advanceOrEndRoundRoom_transition:
  "(maxRounds room \<le> of_int (roundNumber room) \<longrightarrow>
      (let r' = advanceOrEndRoundRoom pf now w room
       in status r' = Ended \<and> word r' = None \<and> drawerUserId r' = None \<and> roundEndsAt r' = None \<and>
          roundNumber r' = roundNumber room \<and> players r' = players room \<and> order r' = order room)) \<and>
   (of_int (roundNumber room) < maxRounds room \<longrightarrow>
      (let r' = advanceOrEndRoundRoom pf now w room
       in status r' = status room \<and>
          roundNumber r' = roundNumber room + 1 \<and>
          word r' = Some w \<and>
          roundEndsAt r' = Some (of_int now + effRoundSeconds pf * 1000) \<and>
          20 \<le> effRoundSeconds pf \<and>
          roundResolvedAt r' = None \<and>
          guessedCorrectUserIds r' = [] \<and>
          players r' = players room \<and> order r' = order room \<and>
          (\<forall>i. i < length (order room) \<and> distinct (order room) \<and>
                drawerUserId room = Some (order room ! i) \<longrightarrow>
                drawerUserId r' = Some (order room ! ((i + 1) mod length (order room))))))"
proof (intro conjI impI)
  assume "maxRounds room \<le> of_int (roundNumber room)"
  then show "let r' = advanceOrEndRoundRoom pf now w room
       in status r' = Ended \<and> word r' = None \<and> drawerUserId r' = None \<and> roundEndsAt r' = None \<and>
          roundNumber r' = roundNumber room \<and> players r' = players room \<and> order r' = order room"
    by (simp add: advanceOrEndRoundRoom_def)
next
  assume lt: "of_int (roundNumber room) < maxRounds room"
  then have n: "\<not> maxRounds room \<le> of_int (roundNumber room)" by simp
  have dr: "drawerUserId (advanceOrEndRoundRoom pf now w room) = nextDrawer (order room) (drawerUserId room)"
    using n by (simp add: advanceOrEndRoundRoom_def Let_def)
  have rot: "\<forall>i. i < length (order room) \<and> distinct (order room) \<and>
                drawerUserId room = Some (order room ! i) \<longrightarrow>
                drawerUserId (advanceOrEndRoundRoom pf now w room)
                  = Some (order room ! ((i + 1) mod length (order room)))"
  proof (intro allI impI)
    fix i
    assume h: "i < length (order room) \<and> distinct (order room) \<and>
                drawerUserId room = Some (order room ! i)"
    then have "nextDrawer (order room) (Some (order room ! i))
                 = Some (order room ! ((i + 1) mod length (order room)))"
      using nextDrawer_rotate[of "order room" i] by blast
    with h show "drawerUserId (advanceOrEndRoundRoom pf now w room)
                  = Some (order room ! ((i + 1) mod length (order room)))"
      by (simp only: dr)
  qed
  show "let r' = advanceOrEndRoundRoom pf now w room
       in status r' = status room \<and>
          roundNumber r' = roundNumber room + 1 \<and>
          word r' = Some w \<and>
          roundEndsAt r' = Some (of_int now + effRoundSeconds pf * 1000) \<and>
          20 \<le> effRoundSeconds pf \<and>
          roundResolvedAt r' = None \<and>
          guessedCorrectUserIds r' = [] \<and>
          players r' = players room \<and> order r' = order room \<and>
          (\<forall>i. i < length (order room) \<and> distinct (order room) \<and>
                drawerUserId room = Some (order room ! i) \<longrightarrow>
                drawerUserId r' = Some (order room ! ((i + 1) mod length (order room))))"
    unfolding Let_def
    using n rot effRoundSeconds_ge[of pf] by (simp add: advanceOrEndRoundRoom_def Let_def)
qed

text \<open>
  Claim C3. The rotation to the entry one position past the current drawer is lost when
  the drawer leaves. The leave handler takes the leaver out of the order before it calls
  \<open>advanceOrEndRound\<close> (to end the round and advance properly, as its comment says), so
  \<open>indexOf\<close> does not find the drawer and the rotation restarts at the first entry. In
  the example room the order is alice, bob, carol, dave and bob draws round 2: the entry
  one position past bob is carol. When bob leaves, round 3 starts with the order alice,
  carol, dave and alice as its drawer: carol is passed over.
\<close>

theorem drawer_leaving_restarts_rotation:
  "map_option (\<lambda>r. (status r, roundNumber r, order r, drawerUserId r)) (rooms exampleStore ''r1'')
     = Some (Playing, 2, [''t2_alice'', ''t2_bob'', ''t2_carol'', ''t2_dave''], Some ''t2_bob'') \<and>
   nextDrawer [''t2_alice'', ''t2_bob'', ''t2_carol'', ''t2_dave''] (Some ''t2_bob'') = Some ''t2_carol'' \<and>
   map_option (\<lambda>r. (status r, roundNumber r, order r, drawerUserId r))
     (rooms (snd (leaveHandler examplePlatform 100000 ''river'' exampleStore
                    (Some ''t2_bob'') (Some ''bob'') ''r1'')) ''r1'')
     = Some (Playing, 3, [''t2_alice'', ''t2_carol'', ''t2_dave''], Some ''t2_alice'') \<and>
   indexOf [''t2_alice'', ''t2_carol'', ''t2_dave''] ''t2_bob'' = - 1"
  by code_simp

section \<open>Resolution of a round\<close>

lemma map_of_addScore:
  "map_of (addScore ps uid n) =
     (map_of ps)(uid := map_option (\<lambda>p. p\<lparr>score := score p + n\<rparr>) (map_of ps uid))"
  by (simp add: addScore_def map_of_map_entry fun_eq_iff split: option.splits)

lemma awardPoints_fields:
  "roundResolvedAt (awardPoints room uid now) = Some now \<and>
   updatedAt (awardPoints room uid now) = now \<and>
   guessedCorrectUserIds (awardPoints room uid now) = guessedCorrectUserIds room @ [uid] \<and>
   roundNumber (awardPoints room uid now) = roundNumber room \<and>
   maxRounds (awardPoints room uid now) = maxRounds room \<and>
   status (awardPoints room uid now) = status room \<and>
   order (awardPoints room uid now) = order room \<and>
   drawerUserId (awardPoints room uid now) = drawerUserId room \<and>
   word (awardPoints room uid now) = word room \<and>
   roundEndsAt (awardPoints room uid now) = roundEndsAt room \<and>
   roomId (awardPoints room uid now) = roomId room \<and>
   createdAt (awardPoints room uid now) = createdAt room"
  by (simp add: awardPoints_def Let_def split: option.splits)

lemma awardPoints_guesser:
  assumes "map_of (players room) uid = Some p" and "drawerUserId room \<noteq> Some uid"
  shows "map_of (players (awardPoints room uid now)) uid = Some (p\<lparr>score := score p + 10\<rparr>)"
  using assms by (auto simp: awardPoints_def Let_def map_of_addScore split: option.splits)

lemma awardPoints_drawer:
  assumes "drawerUserId room = Some d" and "d \<noteq> []" and "map_of (players room) d = Some pd"
    and "d \<noteq> uid"
  shows "map_of (players (awardPoints room uid now)) d = Some (pd\<lparr>score := score pd + 3\<rparr>)"
  using assms by (simp add: awardPoints_def Let_def map_of_addScore)

lemma awardPoints_others:
  assumes "u \<noteq> uid" and "drawerUserId room \<noteq> Some u"
  shows "map_of (players (awardPoints room uid now)) u = map_of (players room) u"
  using assms by (auto simp: awardPoints_def Let_def map_of_addScore split: option.splits)

lemma guessTxn_Write:
  assumes "guessTxn uid now v = Write v' r'"
  shows "\<exists>stored. v = Some stored \<and> v' = Some r' \<and>
           r' = awardPoints (withRoomDefaults stored) uid now \<and>
           status (withRoomDefaults stored) = Playing \<and>
           \<not> truthyNum (roundResolvedAt (withRoomDefaults stored)) \<and>
           map_of (players (withRoomDefaults stored)) uid \<noteq> None \<and>
           drawerUserId (withRoomDefaults stored) \<noteq> Some uid \<and>
           uid \<notin> set (guessedCorrectUserIds (withRoomDefaults stored))"
proof (cases v)
  case None
  with assms show ?thesis by (simp add: guessTxn_def)
next
  case (Some stored)
  with assms show ?thesis
    by (auto simp: guessTxn_def Let_def split: if_splits)
qed

lemma guessTxn_eligible:
  assumes "status (withRoomDefaults stored) = Playing"
    and "\<not> truthyNum (roundResolvedAt (withRoomDefaults stored))"
    and "map_of (players (withRoomDefaults stored)) uid \<noteq> None"
    and "drawerUserId (withRoomDefaults stored) \<noteq> Some uid"
    and "uid \<notin> set (guessedCorrectUserIds (withRoomDefaults stored))"
  shows "guessTxn uid now (Some stored) =
           Write (Some (awardPoints (withRoomDefaults stored) uid now))
                 (awardPoints (withRoomDefaults stored) uid now)"
  using assms by (simp add: guessTxn_def Let_def)

lemma guessTxn_gate:
  "truthyNum (roundResolvedAt (withRoomDefaults stored)) \<Longrightarrow>
     \<exists>resp. guessTxn uid now (Some stored) = Return resp"
  by (simp add: guessTxn_def Let_def)

lemma advanceTxn_gate:
  "truthyNum (roundResolvedAt (withRoomDefaults stored)) \<Longrightarrow>
     \<exists>resp. advanceTxn uid now (Some stored) = Return resp"
  by (simp add: advanceTxn_def Let_def)

lemma advanceTxn_Write:
  assumes "advanceTxn uid now v = Write v' r'"
  shows "\<exists>stored. v = Some stored \<and> v' = Some r' \<and>
           r' = (withRoomDefaults stored)\<lparr>roundResolvedAt := Some now, updatedAt := now\<rparr> \<and>
           status (withRoomDefaults stored) = Playing \<and>
           \<not> truthyNum (roundResolvedAt (withRoomDefaults stored)) \<and>
           map_of (players (withRoomDefaults stored)) uid \<noteq> None \<and>
           (\<forall>e. roundEndsAt (withRoomDefaults stored) = Some e \<and> e \<noteq> 0 \<longrightarrow> e \<le> of_int now)"
proof (cases v)
  case None
  with assms show ?thesis by (simp add: advanceTxn_def)
next
  case (Some stored)
  with assms show ?thesis
    by (auto simp: advanceTxn_def Let_def split: if_splits option.splits)
qed

lemma withRoomDefaults_fields:
  "roundResolvedAt (withRoomDefaults room) = roundResolvedAt room \<and>
   status (withRoomDefaults room) = status room \<and>
   players (withRoomDefaults room) = players room \<and>
   order (withRoomDefaults room) = order room \<and>
   drawerUserId (withRoomDefaults room) = drawerUserId room \<and>
   guessedCorrectUserIds (withRoomDefaults room) = guessedCorrectUserIds room \<and>
   roundNumber (withRoomDefaults room) = roundNumber room \<and>
   roundEndsAt (withRoomDefaults room) = roundEndsAt room \<and>
   word (withRoomDefaults room) = word room \<and>
   roomId (withRoomDefaults room) = roomId room \<and>
   updatedAt (withRoomDefaults room) = updatedAt room"
  by (simp add: withRoomDefaults_def)


lemma withRoomDefaults_idem: "withRoomDefaults (withRoomDefaults room) = withRoomDefaults room"
  by (simp add: withRoomDefaults_def)

lemma truthyNum_Some: "truthyNum (Some n) \<longleftrightarrow> n \<noteq> 0"
  by (simp add: truthyNum_def)

lemma casLoop_quiet:
  "casLoop MAX_QUEUE_TRANSACTION_RETRIES body v [] =
     (case body v of Return r \<Rightarrow> Returned r v | Write v' x \<Rightarrow> Committed x v')"
  by (simp add: MAX_QUEUE_TRANSACTION_RETRIES_def eval_nat_numeral split: txn.splits)

lemma casLoop_Return_first:
  "0 < n \<Longrightarrow> body v = Return r \<Longrightarrow> casLoop n body v sched = Returned r v"
  by (cases n) simp_all

text \<open>
  What one resolution transaction does. For a stored room that is playing and whose
  resolution mark is unset, the guess transaction of a member who is not the drawer (and
  is not yet listed as a correct guesser) writes one room value that carries the
  resolution mark, the caller appended to the correct guessers, 10 points more for the
  caller, 3 points more for the drawer, and every other score as it was; with no
  concurrent write the loop commits it. A guess transaction that commits under a
  schedule of concurrent writes did so on the last value written to the key, which was a
  playing, unresolved room. While the mark is set, every guess or advance transaction
  returns without writing, under every schedule.
\<close>

lemma guess_transaction:
  "(\<forall>stored uid now p.
      status stored = Playing \<and> \<not> truthyNum (roundResolvedAt stored) \<and>
      map_of (players stored) uid = Some p \<and> drawerUserId stored \<noteq> Some uid \<and>
      uid \<notin> set (guessedCorrectUserIds stored) \<longrightarrow>
        (\<exists>r'. guessTxn uid now (Some stored) = Write (Some r') r' \<and>
              casLoop MAX_QUEUE_TRANSACTION_RETRIES (guessTxn uid now) (Some stored) []
                = Committed r' (Some r') \<and>
              roundResolvedAt r' = Some now \<and>
              guessedCorrectUserIds r' = guessedCorrectUserIds stored @ [uid] \<and>
              map_of (players r') uid = Some (p\<lparr>score := score p + 10\<rparr>) \<and>
              (\<forall>d pd. drawerUserId stored = Some d \<and> d \<noteq> [] \<and> map_of (players stored) d = Some pd \<longrightarrow>
                 map_of (players r') d = Some (pd\<lparr>score := score pd + 3\<rparr>)) \<and>
              (\<forall>u. u \<noteq> uid \<and> drawerUserId stored \<noteq> Some u \<longrightarrow>
                 map_of (players r') u = map_of (players stored) u) \<and>
              roundNumber r' = roundNumber stored \<and> status r' = Playing)) \<and>
   (\<forall>n uid now v sched r' v'.
      casLoop n (guessTxn uid now) v sched = Committed r' v' \<longrightarrow>
        length (conflictWrites sched) < n \<and>
        (\<exists>stored. last (v # conflictWrites sched) = Some stored \<and> v' = Some r' \<and>
           status stored = Playing \<and> \<not> truthyNum (roundResolvedAt stored) \<and>
           map_of (players stored) uid \<noteq> None \<and> drawerUserId stored \<noteq> Some uid \<and>
           guessTxn uid now (Some stored) = Write (Some r') r' \<and>
           roundResolvedAt r' = Some now \<and> roundNumber r' = roundNumber stored)) \<and>
   (\<forall>stored uid now sched n.
      truthyNum (roundResolvedAt stored) \<and> 0 < n \<longrightarrow>
        (\<exists>resp. casLoop n (guessTxn uid now) (Some stored) sched = Returned resp (Some stored)) \<and>
        (\<exists>resp. casLoop n (advanceTxn uid now) (Some stored) sched = Returned resp (Some stored)))"
proof (intro conjI allI impI)
  fix stored :: RoomState and uid now p
  assume h: "status stored = Playing \<and> \<not> truthyNum (roundResolvedAt stored) \<and>
      map_of (players stored) uid = Some p \<and> drawerUserId stored \<noteq> Some uid \<and>
      uid \<notin> set (guessedCorrectUserIds stored)"
  let ?room = "withRoomDefaults stored"
  let ?r = "awardPoints ?room uid now"
  have w: "guessTxn uid now (Some stored) = Write (Some ?r) ?r"
    using h by (intro guessTxn_eligible) (simp_all add: withRoomDefaults_fields)
  have c: "casLoop MAX_QUEUE_TRANSACTION_RETRIES (guessTxn uid now) (Some stored) [] = Committed ?r (Some ?r)"
    by (simp add: casLoop_quiet w)
  have g: "map_of (players ?r) uid = Some (p\<lparr>score := score p + 10\<rparr>)"
    using h by (intro awardPoints_guesser) (simp_all add: withRoomDefaults_fields)
  have d: "\<forall>d pd. drawerUserId stored = Some d \<and> d \<noteq> [] \<and> map_of (players stored) d = Some pd \<longrightarrow>
                 map_of (players ?r) d = Some (pd\<lparr>score := score pd + 3\<rparr>)"
  proof (intro allI impI)
    fix d pd
    assume a: "drawerUserId stored = Some d \<and> d \<noteq> [] \<and> map_of (players stored) d = Some pd"
    with h have "d \<noteq> uid" by auto
    with a show "map_of (players ?r) d = Some (pd\<lparr>score := score pd + 3\<rparr>)"
      by (intro awardPoints_drawer) (simp_all add: withRoomDefaults_fields)
  qed
  have o: "\<forall>u. u \<noteq> uid \<and> drawerUserId stored \<noteq> Some u \<longrightarrow>
                 map_of (players ?r) u = map_of (players stored) u"
    using awardPoints_others[of _ uid ?room now] by (simp add: withRoomDefaults_fields)
  from w c g d o h show "\<exists>r'. guessTxn uid now (Some stored) = Write (Some r') r' \<and>
              casLoop MAX_QUEUE_TRANSACTION_RETRIES (guessTxn uid now) (Some stored) []
                = Committed r' (Some r') \<and>
              roundResolvedAt r' = Some now \<and>
              guessedCorrectUserIds r' = guessedCorrectUserIds stored @ [uid] \<and>
              map_of (players r') uid = Some (p\<lparr>score := score p + 10\<rparr>) \<and>
              (\<forall>d pd. drawerUserId stored = Some d \<and> d \<noteq> [] \<and> map_of (players stored) d = Some pd \<longrightarrow>
                 map_of (players r') d = Some (pd\<lparr>score := score pd + 3\<rparr>)) \<and>
              (\<forall>u. u \<noteq> uid \<and> drawerUserId stored \<noteq> Some u \<longrightarrow>
                 map_of (players r') u = map_of (players stored) u) \<and>
              roundNumber r' = roundNumber stored \<and> status r' = Playing"
    by (intro exI[of _ ?r]) (simp add: awardPoints_fields withRoomDefaults_fields)
next
  fix n uid now v sched r' v'
  assume "casLoop n (guessTxn uid now) v sched = Committed r' v'"
  from casLoop_Committed_last[OF this]
  show "length (conflictWrites sched) < n" by blast
next
  fix n uid now v sched r' v'
  assume "casLoop n (guessTxn uid now) v sched = Committed r' v'"
  from casLoop_Committed_last[OF this] have
    raw: "guessTxn uid now (last (v # conflictWrites sched)) = Write v' r'" by blast
  from guessTxn_Write[OF raw] obtain stored where
    s: "last (v # conflictWrites sched) = Some stored" "v' = Some r'"
       "r' = awardPoints (withRoomDefaults stored) uid now"
       "status (withRoomDefaults stored) = Playing"
       "\<not> truthyNum (roundResolvedAt (withRoomDefaults stored))"
       "map_of (players (withRoomDefaults stored)) uid \<noteq> None"
       "drawerUserId (withRoomDefaults stored) \<noteq> Some uid" by blast
  have w: "guessTxn uid now (Some stored) = Write (Some r') r'"
    using raw s(1,2) by simp
  from s w show "\<exists>stored. last (v # conflictWrites sched) = Some stored \<and> v' = Some r' \<and>
           status stored = Playing \<and> \<not> truthyNum (roundResolvedAt stored) \<and>
           map_of (players stored) uid \<noteq> None \<and> drawerUserId stored \<noteq> Some uid \<and>
           guessTxn uid now (Some stored) = Write (Some r') r' \<and>
           roundResolvedAt r' = Some now \<and> roundNumber r' = roundNumber stored"
    by (intro exI[of _ stored]) (simp add: awardPoints_fields withRoomDefaults_fields)
next
  fix stored :: RoomState and uid now sched and n :: nat
  assume h: "truthyNum (roundResolvedAt stored) \<and> 0 < n"
  then have "truthyNum (roundResolvedAt (withRoomDefaults stored))"
    by (simp add: withRoomDefaults_fields)
  from guessTxn_gate[OF this] obtain resp where "guessTxn uid now (Some stored) = Return resp"
    by blast
  with h casLoop_Return_first[of n "guessTxn uid now" "Some stored" resp sched]
  show "\<exists>resp. casLoop n (guessTxn uid now) (Some stored) sched = Returned resp (Some stored)"
    by blast
next
  fix stored :: RoomState and uid now sched and n :: nat
  assume h: "truthyNum (roundResolvedAt stored) \<and> 0 < n"
  then have "truthyNum (roundResolvedAt (withRoomDefaults stored))"
    by (simp add: withRoomDefaults_fields)
  from advanceTxn_gate[OF this] obtain resp where "advanceTxn uid now (Some stored) = Return resp"
    by blast
  with h casLoop_Return_first[of n "advanceTxn uid now" "Some stored" resp sched]
  show "\<exists>resp. casLoop n (advanceTxn uid now) (Some stored) sched = Returned resp (Some stored)"
    by blast
qed

lemma guessHandlerRacing_quiet:
  "guessHandlerRacing pf now w s ctxUser ctxName rid textRaw [] =
     guessHandler pf now w s ctxUser ctxName rid textRaw"
  by (simp add: guessHandlerRacing_def guessHandler_def)

text \<open>
  Claim C1. Of several correct guesses of one round only one is to score, and the
  handler's comment says that the optimistic lock ensures it. The handler decides that a
  guess is correct on the room it read before the loop and does not look at the word or
  the round number again inside the loop. In the example two players send the word
  \<open>tiger\<close> of round 2. The first request resolves round 2 (10 points for the guesser, 3
  for the drawer) and saves round 3 with a new word, a new drawer and no resolution
  mark. The first attempt of the second request conflicts with that; its second attempt
  reads round 3, finds it unresolved and commits: 10 points for a guess that is not the
  word of round 3, 3 points for the drawer of round 3, and round 3 is over (here the
  game, round 3 being the last). Both guesses of round 2 have scored. The same request
  is a no-op when it is served after the first, and when its second attempt reads the
  room while the mark of round 2 is still set.
\<close>

theorem stale_guess_scores_in_next_round:
  "map_option (\<lambda>r. (status r, roundNumber r, word r, drawerUserId r, roundResolvedAt r))
     (rooms exampleStore ''r1'') = Some (Playing, 2, Some ''tiger'', Some ''t2_bob'', None) \<and>
   map_option scores (rooms exampleStore ''r1'')
     = Some [(''t2_alice'', 10), (''t2_bob'', 3), (''t2_carol'', 0), (''t2_dave'', 0)] \<and>
   map_option (\<lambda>r. (status r, roundNumber r, word r, drawerUserId r, roundResolvedAt r))
     (rooms exampleFirstGuess ''r1'') = Some (Playing, 3, Some ''river'', Some ''t2_carol'', None) \<and>
   map_option scores (rooms exampleFirstGuess ''r1'')
     = Some [(''t2_alice'', 10), (''t2_bob'', 6), (''t2_carol'', 10), (''t2_dave'', 0)] \<and>
   toLowerCase (take 80 (trim ''Tiger'')) = toLowerCase ''tiger'' \<and>
   toLowerCase (take 80 (trim ''Tiger'')) \<noteq> toLowerCase ''river'' \<and>
   fst exampleSecondGuess = OkResponse \<and>
   map_option scores (rooms (snd exampleSecondGuess) ''r1'')
     = Some [(''t2_alice'', 10), (''t2_bob'', 6), (''t2_carol'', 13), (''t2_dave'', 10)] \<and>
   map_option (\<lambda>r. (status r, roundNumber r, guessedCorrectUserIds r))
     (rooms (snd exampleSecondGuess) ''r1'') = Some (Ended, 3, [''t2_dave'']) \<and>
   rooms (snd (guessHandlerRacing examplePlatform 100001 ''lion'' exampleFirstGuess
                 (Some ''t2_dave'') (Some ''dave'') ''r1'' ''Tiger'' [])) ''r1''
     = rooms exampleFirstGuess ''r1'' \<and>
   rooms (snd (guessHandlerRacing examplePlatform 100001 ''lion'' exampleStore
                 (Some ''t2_dave'') (Some ''dave'') ''r1'' ''Tiger''
                 [Some (Some (awardPoints exampleRoom ''t2_carol'' 100000))])) ''r1''
     = Some (awardPoints exampleRoom ''t2_carol'' 100000)"
  by code_simp

section \<open>The advance request\<close>

lemma store_rooms_same: "s\<lparr>rooms := (rooms s)(rid := rooms s rid)\<rparr> = s"
  by simp

lemma store_rooms_same_Some:
  "rooms s rid = Some stored \<Longrightarrow> s\<lparr>rooms := (rooms s)(rid \<mapsto> stored)\<rparr> = s"
  by (simp add: map_upd_triv)

lemma ensureContext_Inr:
  "ensureContext ctxUser ctxName = Inr (uid, uname) \<Longrightarrow> ctxUser = Some uid \<and> uid \<noteq> []"
  by (auto simp: ensureContext_def split: option.splits if_splits)

lemma advanceTxn_Return_noop:
  fixes s :: store
  assumes "rooms s rid = Some stored"
    and "status stored \<noteq> Playing \<or> truthyNum (roundResolvedAt stored) \<or>
         (\<exists>e. roundEndsAt stored = Some e \<and> e \<noteq> 0 \<and> of_int now < e)"
  shows "\<exists>resp. advanceTxn uid now (rooms s rid) = Return resp"
  using assms by (auto simp: advanceTxn_def withRoomDefaults_fields)

lemma advanceHandler_noop:
  assumes "rooms s rid = Some stored"
    and "status stored \<noteq> Playing \<or> truthyNum (roundResolvedAt stored) \<or>
         (\<exists>e. roundEndsAt stored = Some e \<and> e \<noteq> 0 \<and> of_int now < e)"
  shows "snd (advanceHandler pf now w s ctxUser ctxName rid) = s"
proof (cases "ensureContext ctxUser ctxName")
  case (Inl e)
  then show ?thesis by (simp add: advanceHandler_def)
next
  case (Inr p)
  obtain uid uname where p: "p = (uid, uname)" by (cases p)
  from advanceTxn_Return_noop[OF assms, of uid] obtain resp where
    r: "advanceTxn uid now (rooms s rid) = Return resp" by blast
  show ?thesis
    using Inr p assms(1) r
    by (simp add: advanceHandler_def loadRoom_def casLoop_quiet store_rooms_same_Some)
qed

lemma advanceHandler_missing:
  "rooms s rid = None \<Longrightarrow> snd (advanceHandler pf now w s ctxUser ctxName rid) = s"
  by (simp add: advanceHandler_def loadRoom_def split: sum.splits prod.splits)

lemma advanceHandler_changed:
  assumes "snd (advanceHandler pf now w s ctxUser ctxName rid) \<noteq> s"
  shows "\<exists>uid stored. ctxUser = Some uid \<and> rooms s rid = Some stored \<and>
           status stored = Playing \<and> \<not> truthyNum (roundResolvedAt stored) \<and>
           map_of (players stored) uid \<noteq> None \<and>
           (\<forall>e. roundEndsAt stored = Some e \<and> e \<noteq> 0 \<longrightarrow> e \<le> of_int now) \<and>
           snd (advanceHandler pf now w s ctxUser ctxName rid) =
             advanceOrEndRound pf now w
               (s\<lparr>rooms := (rooms s)(rid \<mapsto> (withRoomDefaults stored)\<lparr>roundResolvedAt := Some now, updatedAt := now\<rparr>)\<rparr>)
               ((withRoomDefaults stored)\<lparr>roundResolvedAt := Some now, updatedAt := now\<rparr>)"
proof (cases "ensureContext ctxUser ctxName")
  case (Inl e)
  with assms show ?thesis by (simp add: advanceHandler_def)
next
  case (Inr p)
  obtain uid uname where p: "p = (uid, uname)" by (cases p)
  from ensureContext_Inr Inr p have cu: "ctxUser = Some uid" by blast
  show ?thesis
  proof (cases "rooms s rid")
    case None
    with assms advanceHandler_missing show ?thesis by blast
  next
    case (Some stored)
    show ?thesis
    proof (cases "advanceTxn uid now (rooms s rid)")
      case (Return resp)
      with assms Inr p Some show ?thesis
        by (simp add: advanceHandler_def loadRoom_def casLoop_quiet store_rooms_same_Some
              split: if_splits)
    next
      case (Write v' r')
      from advanceTxn_Write[OF Write] Some have
        w: "v' = Some r'"
           "r' = (withRoomDefaults stored)\<lparr>roundResolvedAt := Some now, updatedAt := now\<rparr>"
           "status (withRoomDefaults stored) = Playing"
           "\<not> truthyNum (roundResolvedAt (withRoomDefaults stored))"
           "map_of (players (withRoomDefaults stored)) uid \<noteq> None"
           "\<forall>e. roundEndsAt (withRoomDefaults stored) = Some e \<and> e \<noteq> 0 \<longrightarrow> e \<le> of_int now"
        by auto
      have "snd (advanceHandler pf now w s ctxUser ctxName rid) =
              advanceOrEndRound pf now w (s\<lparr>rooms := (rooms s)(rid := v')\<rparr>) r'"
        using Inr p Some Write w(3,5)
        by (auto simp: advanceHandler_def loadRoom_def casLoop_quiet)
      with w cu Some show ?thesis
        by (intro exI[of _ uid] exI[of _ stored]) (simp add: withRoomDefaults_fields)
    qed
  qed
qed

lemma rooms_advanceOrEndRound:
  "roomId room = rid \<Longrightarrow>
     rooms (advanceOrEndRound pf now w s room) rid = Some (advanceOrEndRoundRoom pf now w room)"
  by (simp add: advanceOrEndRound_def saveRoom_def advanceOrEndRoundRoom_def Let_def)

lemma advanceOrEndRoundRoom_cases:
  "(status (advanceOrEndRoundRoom pf now w room) = Ended) \<or>
   (status (advanceOrEndRoundRoom pf now w room) = status room \<and>
    roundEndsAt (advanceOrEndRoundRoom pf now w room) = Some (of_int now + effRoundSeconds pf * 1000))"
  by (simp add: advanceOrEndRoundRoom_def Let_def)

lemma next_deadline_later:
  assumes "0 < now" and "now' < now + 20000"
  shows "of_int now + effRoundSeconds pf * 1000 \<noteq> 0 \<and>
         (of_int now' :: rat) < of_int now + effRoundSeconds pf * 1000"
proof -
  have "(20000::rat) \<le> effRoundSeconds pf * 1000" using effRoundSeconds_ge[of pf] by simp
  moreover have "(of_int now' :: rat) < of_int now + 20000"
    using assms(2) by (metis of_int_add of_int_less_iff of_int_numeral)
  moreover have "(0::rat) < of_int now" using assms(1) by simp
  ultimately show ?thesis by linarith
qed

lemma advanceHandler_idempotent:
  assumes now: "0 < now" and key: "\<forall>stored. rooms s rid = Some stored \<longrightarrow> roomId stored = rid"
    and changed: "snd (advanceHandler pf now w s ctxUser ctxName rid) \<noteq> s"
    and soon: "now' < now + 20000"
  shows "snd (advanceHandler pf now' w' (snd (advanceHandler pf now w s ctxUser ctxName rid))
                 ctxUser' ctxName' rid)
           = snd (advanceHandler pf now w s ctxUser ctxName rid)"
proof -
  let ?s' = "snd (advanceHandler pf now w s ctxUser ctxName rid)"
  from advanceHandler_changed[OF changed] obtain uid stored where
    st: "rooms s rid = Some stored" and
    s': "?s' = advanceOrEndRound pf now w
               (s\<lparr>rooms := (rooms s)(rid \<mapsto> (withRoomDefaults stored)\<lparr>roundResolvedAt := Some now, updatedAt := now\<rparr>)\<rparr>)
               ((withRoomDefaults stored)\<lparr>roundResolvedAt := Some now, updatedAt := now\<rparr>)"
    by blast
  let ?r1 = "(withRoomDefaults stored)\<lparr>roundResolvedAt := Some now, updatedAt := now\<rparr>"
  let ?r2 = "advanceOrEndRoundRoom pf now w ?r1"
  from key st have "roomId ?r1 = rid" by (simp add: withRoomDefaults_fields)
  from rooms_advanceOrEndRound[OF this] s' have r2: "rooms ?s' rid = Some ?r2" by simp
  from advanceOrEndRoundRoom_cases[of pf now w ?r1] next_deadline_later[OF now soon, of pf]
  have "status ?r2 \<noteq> Playing \<or> truthyNum (roundResolvedAt ?r2) \<or>
         (\<exists>e. roundEndsAt ?r2 = Some e \<and> e \<noteq> 0 \<and> of_int now' < e)"
    by auto
  from advanceHandler_noop[OF r2 this] show ?thesis .
qed

text \<open>
  Claim C6. An advance request that changes the store found the room playing, its
  resolution mark unset and no deadline ahead of the clock; on a room that is not
  playing, or already resolved, or whose deadline lies ahead, it leaves the store as it
  is. After an advance request has resolved a round (and so started the next round or
  ended the room), a further advance request by anyone within the next 20 seconds, the
  least round duration, changes nothing: no score and no second advancement.
\<close>

theorem advance_noop_unless_due:
  "(\<forall>pf now w s ctxUser ctxName rid.
      0 \<le> now \<and> snd (advanceHandler pf now w s ctxUser ctxName rid) \<noteq> s \<longrightarrow>
        (\<exists>stored. rooms s rid = Some stored \<and> status stored = Playing \<and>
           \<not> truthyNum (roundResolvedAt stored) \<and>
           (\<forall>e. roundEndsAt stored = Some e \<longrightarrow> e \<le> of_int now))) \<and>
   (\<forall>pf now w s ctxUser ctxName rid stored.
      rooms s rid = Some stored \<and>
      (status stored \<noteq> Playing \<or> truthyNum (roundResolvedAt stored) \<or>
       (\<exists>e. roundEndsAt stored = Some e \<and> e \<noteq> 0 \<and> of_int now < e)) \<longrightarrow>
        snd (advanceHandler pf now w s ctxUser ctxName rid) = s) \<and>
   (\<forall>pf now w s ctxUser ctxName rid now' w' ctxUser' ctxName'.
      0 < now \<and> (\<forall>stored. rooms s rid = Some stored \<longrightarrow> roomId stored = rid) \<and>
      snd (advanceHandler pf now w s ctxUser ctxName rid) \<noteq> s \<and> now' < now + 20000 \<longrightarrow>
        snd (advanceHandler pf now' w' (snd (advanceHandler pf now w s ctxUser ctxName rid))
               ctxUser' ctxName' rid)
          = snd (advanceHandler pf now w s ctxUser ctxName rid))"
proof (intro conjI allI impI)
  fix pf now w and s :: store and ctxUser ctxName rid
  assume h: "0 \<le> now \<and> snd (advanceHandler pf now w s ctxUser ctxName rid) \<noteq> s"
  from advanceHandler_changed[of pf now w s ctxUser ctxName rid] h obtain stored where
    st: "rooms s rid = Some stored" "status stored = Playing" "\<not> truthyNum (roundResolvedAt stored)"
        "\<forall>e. roundEndsAt stored = Some e \<and> e \<noteq> 0 \<longrightarrow> e \<le> of_int now" by blast
  have "\<forall>e. roundEndsAt stored = Some e \<longrightarrow> e \<le> of_int now"
  proof (intro allI impI)
    fix e assume e: "roundEndsAt stored = Some e"
    show "e \<le> of_int now"
    proof (cases "e = 0")
      case True
      with h show ?thesis by simp
    next
      case False
      with e st(4) show ?thesis by blast
    qed
  qed
  with st show "\<exists>stored. rooms s rid = Some stored \<and> status stored = Playing \<and>
           \<not> truthyNum (roundResolvedAt stored) \<and>
           (\<forall>e. roundEndsAt stored = Some e \<longrightarrow> e \<le> of_int now)" by blast
next
  fix pf now w and s :: store and ctxUser ctxName rid stored
  assume "rooms s rid = Some stored \<and>
      (status stored \<noteq> Playing \<or> truthyNum (roundResolvedAt stored) \<or>
       (\<exists>e. roundEndsAt stored = Some e \<and> e \<noteq> 0 \<and> of_int now < e))"
  then show "snd (advanceHandler pf now w s ctxUser ctxName rid) = s"
    using advanceHandler_noop[of s rid stored now pf w ctxUser ctxName] by blast
next
  fix pf now w and s :: store and ctxUser ctxName rid now' w' ctxUser' ctxName'
  assume "0 < now \<and> (\<forall>stored. rooms s rid = Some stored \<longrightarrow> roomId stored = rid) \<and>
      snd (advanceHandler pf now w s ctxUser ctxName rid) \<noteq> s \<and> now' < now + 20000"
  then show "snd (advanceHandler pf now' w' (snd (advanceHandler pf now w s ctxUser ctxName rid))
               ctxUser' ctxName' rid)
          = snd (advanceHandler pf now w s ctxUser ctxName rid)"
    using advanceHandler_idempotent[of now s rid pf w ctxUser ctxName now' w' ctxUser' ctxName']
    by blast
qed

theorem advance_noop_unless_due_witness:
  "snd (advanceHandler examplePlatform 180000 ''river'' exampleStore (Some ''t2_carol'') None ''r1'')
     \<noteq> exampleStore \<and>
   rooms exampleStore ''r1'' = Some exampleRoom \<and> status exampleRoom = Playing \<and>
   roundEndsAt exampleRoom = Some 170000 \<and>
   snd (advanceHandler examplePlatform 180001 ''lion''
          (snd (advanceHandler examplePlatform 180000 ''river'' exampleStore (Some ''t2_carol'') None ''r1''))
          (Some ''t2_dave'') None ''r1'')
     = snd (advanceHandler examplePlatform 180000 ''river'' exampleStore (Some ''t2_carol'') None ''r1'') \<and>
   snd (advanceHandler examplePlatform 100000 ''river'' exampleStore (Some ''t2_carol'') None ''r1'')
     = exampleStore"
proof -
  let ?s1 = "snd (advanceHandler examplePlatform 180000 ''river'' exampleStore (Some ''t2_carol'') None ''r1'')"
  have r: "rooms exampleStore ''r1'' = Some exampleRoom" by (simp add: exampleStore_def)
  have st: "status exampleRoom = Playing" by code_simp
  have dl: "roundEndsAt exampleRoom = Some 170000" by code_simp
  have id: "roomId exampleRoom = ''r1''" by code_simp
  have n1: "map_option roundNumber (rooms ?s1 ''r1'') = Some 3" by code_simp
  have n0: "map_option roundNumber (rooms exampleStore ''r1'') = Some 2" by code_simp
  have ne: "?s1 \<noteq> exampleStore"
  proof
    assume "?s1 = exampleStore"
    with n1 n0 show False by simp
  qed
  have key: "\<forall>stored. rooms exampleStore ''r1'' = Some stored \<longrightarrow> roomId stored = ''r1''"
    using r id by simp
  note inst = advance_noop_unless_due
  have pre3: "0 < (180000::int) \<and> (\<forall>stored. rooms exampleStore ''r1'' = Some stored \<longrightarrow> roomId stored = ''r1'') \<and>
      ?s1 \<noteq> exampleStore \<and> (180001::int) < 180000 + 20000"
    using key ne by simp
  from inst[THEN conjunct2, THEN conjunct2, rule_format,
      where pf = examplePlatform and now = 180000 and w = "''river''" and s = exampleStore
        and ctxUser = "Some ''t2_carol''" and ctxName = None and rid = "''r1''" and now' = 180001
        and w' = "''lion''" and ctxUser' = "Some ''t2_dave''" and ctxName' = None, OF pre3]
  have again: "snd (advanceHandler examplePlatform 180001 ''lion'' ?s1 (Some ''t2_dave'') None ''r1'') = ?s1" .
  have pre2: "rooms exampleStore ''r1'' = Some exampleRoom \<and>
      (status exampleRoom \<noteq> Playing \<or> truthyNum (roundResolvedAt exampleRoom) \<or>
       (\<exists>e. roundEndsAt exampleRoom = Some e \<and> e \<noteq> 0 \<and> of_int 100000 < e))"
    using r dl by simp
  from inst[THEN conjunct2, THEN conjunct1, rule_format,
      where pf = examplePlatform and now = 100000 and w = "''river''" and s = exampleStore
        and ctxUser = "Some ''t2_carol''" and ctxName = None and rid = "''r1''"
        and stored = exampleRoom, OF pre2]
  have early: "snd (advanceHandler examplePlatform 100000 ''river'' exampleStore (Some ''t2_carol'') None ''r1'')
     = exampleStore" .
  from ne r st dl again early show ?thesis by blast
qed

section \<open>Leaving a room\<close>

lemma setUserRoom_eq:
  "setUserRoom s uid rid =
     s\<lparr>userRooms := (case rid of
                        Some r \<Rightarrow> if r \<noteq> [] then (userRooms s)(uid \<mapsto> r) else (userRooms s)(uid := None)
                      | None \<Rightarrow> (userRooms s)(uid := None))\<rparr>"
  by (simp add: setUserRoom_def setUserRoomKey_def setUserRoomTxn_def casLoop_quiet)

lemma setUserRoom_None: "setUserRoom s uid None = s\<lparr>userRooms := (userRooms s)(uid := None)\<rparr>"
  by (simp add: setUserRoom_eq)

lemma fold_clear_userRooms:
  "userRooms (fold (\<lambda>i st. setUserRoom st i None) ids s) u =
     (if u \<in> set ids then None else userRooms s u)"
  by (induction ids arbitrary: s) (auto simp: setUserRoom_None)


lemma fold_clear_roomIndex: "roomIndex (fold (\<lambda>i st. setUserRoom st i None) ids s) = roomIndex s"
  by (induction ids arbitrary: s) (auto simp: setUserRoom_None)

lemma userRooms_deleteRoom: "userRooms (deleteRoom s rid) = userRooms s"
  by (simp add: deleteRoom_def)

lemma rooms_deleteRoom: "rooms (deleteRoom s rid) rid = None \<and> roomIndex (deleteRoom s rid) rid = None"
  by (simp add: deleteRoom_def)

lemma userRooms_saveRoom: "userRooms (saveRoom s room) = userRooms s"
  by (simp add: saveRoom_def)

lemma userRooms_advanceOrEndRound: "userRooms (advanceOrEndRound pf now w s room) = userRooms s"
  by (simp add: advanceOrEndRound_def saveRoom_def)

lemma ensureContext_Some:
  "uid \<noteq> [] \<Longrightarrow> ensureContext (Some uid) ctxName = Inr (uid, (case ctxName of Some n \<Rightarrow> n | None \<Rightarrow> uid))"
  by (simp add: ensureContext_def)

lemma leaveHandler_eq:
  assumes "uid \<noteq> []" and "rooms s rid = Some stored"
  shows "snd (leaveHandler pf now w s (Some uid) ctxName rid) =
     (let room = (withRoomDefaults stored)\<lparr>players := AList.delete uid (players stored),
                                             order := filter (\<lambda>i. i \<noteq> uid) (order stored),
                                             updatedAt := now\<rparr>;
          s1 = setUserRoom s uid None
      in if length (filter (\<lambda>i. i \<noteq> uid) (order stored)) < 2 then
           deleteRoom (fold (\<lambda>i st. setUserRoom st i None) (filter (\<lambda>i. i \<noteq> uid) (order stored)) s1) rid
         else if drawerUserId stored = Some uid \<and> status stored = Playing then
           advanceOrEndRound pf now w s1 (room\<lparr>roundResolvedAt := Some now\<rparr>)
         else saveRoom s1 room)"
  using assms
  by (simp add: leaveHandler_def ensureContext_Some loadRoom_def Let_def withRoomDefaults_fields)

text \<open>
  Claim C7. When a logged-in user leaves a stored room, the user's index entry is
  cleared. If fewer than 2 users remain in the order, the room record and its index entry
  are deleted, whatever the resolution state, and the index entry of every remaining user
  is cleared. Otherwise the stored room no longer has the user among its players or in
  its order, and keeps every other player; and if the user was the drawer of a playing
  room, the stored room is what \<open>advanceOrEndRound\<close> makes of the room with the
  resolution mark set: the next round with another drawer, or the ended room.
\<close>

theorem leave_room:
  fixes s :: store and pf :: platform and now :: int and w :: string
    and ctxUser ctxName :: "string option" and rid uid :: string and stored :: RoomState
  assumes "ctxUser = Some uid" and "uid \<noteq> []"
    and "rooms s rid = Some stored" and "roomId stored = rid"
  defines "remaining \<equiv> filter (\<lambda>i. i \<noteq> uid) (order stored)"
  defines "s' \<equiv> snd (leaveHandler pf now w s ctxUser ctxName rid)"
  shows "userRooms s' uid = None \<and>
         (length remaining < 2 \<longrightarrow>
            rooms s' rid = None \<and> roomIndex s' rid = None \<and>
            (\<forall>i \<in> set remaining. userRooms s' i = None)) \<and>
         (2 \<le> length remaining \<longrightarrow>
            (\<exists>room'. rooms s' rid = Some room' \<and>
               map_of (players room') uid = None \<and> uid \<notin> set (order room') \<and>
               order room' = remaining \<and>
               (\<forall>u. u \<noteq> uid \<longrightarrow> map_of (players room') u = map_of (players stored) u) \<and>
               (drawerUserId stored = Some uid \<and> status stored = Playing \<longrightarrow>
                  room' = advanceOrEndRoundRoom pf now w
                            ((withRoomDefaults stored)
                               \<lparr>players := AList.delete uid (players stored), order := remaining,
                                updatedAt := now, roundResolvedAt := Some now\<rparr>) \<and>
                  (of_int (roundNumber stored) < maxRounds (withRoomDefaults stored) \<longrightarrow>
                     status room' = Playing \<and> roundNumber room' = roundNumber stored + 1 \<and>
                     roundResolvedAt room' = None \<and> drawerUserId room' \<noteq> Some uid) \<and>
                  (maxRounds (withRoomDefaults stored) \<le> of_int (roundNumber stored) \<longrightarrow>
                     status room' = Ended)) \<and>
               (\<not> (drawerUserId stored = Some uid \<and> status stored = Playing) \<longrightarrow>
                  status room' = status stored \<and> roundNumber room' = roundNumber stored \<and>
                  drawerUserId room' = drawerUserId stored \<and>
                  roundResolvedAt room' = roundResolvedAt stored)))"
proof -
  let ?room = "(withRoomDefaults stored)\<lparr>players := AList.delete uid (players stored),
                                             order := remaining, updatedAt := now\<rparr>"
  let ?s1 = "setUserRoom s uid None"
  have eq: "s' =
     (if length remaining < 2 then
           deleteRoom (fold (\<lambda>i st. setUserRoom st i None) remaining ?s1) rid
         else if drawerUserId stored = Some uid \<and> status stored = Playing then
           advanceOrEndRound pf now w ?s1 (?room\<lparr>roundResolvedAt := Some now\<rparr>)
         else saveRoom ?s1 ?room)"
    unfolding s'_def remaining_def assms(1)
    using leaveHandler_eq[OF assms(2,3), of pf now w ctxName] by (simp add: Let_def)
  have rid: "roomId ?room = rid" using assms(4) by (simp add: withRoomDefaults_fields)
  have u1: "userRooms ?s1 uid = None" by (simp add: setUserRoom_None)
  have a: "userRooms s' uid = None"
    unfolding eq
    by (simp add: userRooms_deleteRoom userRooms_saveRoom userRooms_advanceOrEndRound
          fold_clear_userRooms u1)
  have b: "length remaining < 2 \<longrightarrow>
            rooms s' rid = None \<and> roomIndex s' rid = None \<and>
            (\<forall>i \<in> set remaining. userRooms s' i = None)"
    unfolding eq
    by (simp add: userRooms_deleteRoom rooms_deleteRoom fold_clear_userRooms)
  have c: "2 \<le> length remaining \<longrightarrow>
            (\<exists>room'. rooms s' rid = Some room' \<and>
               map_of (players room') uid = None \<and> uid \<notin> set (order room') \<and>
               order room' = remaining \<and>
               (\<forall>u. u \<noteq> uid \<longrightarrow> map_of (players room') u = map_of (players stored) u) \<and>
               (drawerUserId stored = Some uid \<and> status stored = Playing \<longrightarrow>
                  room' = advanceOrEndRoundRoom pf now w
                            ((withRoomDefaults stored)
                               \<lparr>players := AList.delete uid (players stored), order := remaining,
                                updatedAt := now, roundResolvedAt := Some now\<rparr>) \<and>
                  (of_int (roundNumber stored) < maxRounds (withRoomDefaults stored) \<longrightarrow>
                     status room' = Playing \<and> roundNumber room' = roundNumber stored + 1 \<and>
                     roundResolvedAt room' = None \<and> drawerUserId room' \<noteq> Some uid) \<and>
                  (maxRounds (withRoomDefaults stored) \<le> of_int (roundNumber stored) \<longrightarrow>
                     status room' = Ended)) \<and>
               (\<not> (drawerUserId stored = Some uid \<and> status stored = Playing) \<longrightarrow>
                  status room' = status stored \<and> roundNumber room' = roundNumber stored \<and>
                  drawerUserId room' = drawerUserId stored \<and>
                  roundResolvedAt room' = roundResolvedAt stored))"
  proof
    assume two: "2 \<le> length remaining"
    have notin: "uid \<notin> set remaining" by (simp add: remaining_def)
    show "\<exists>room'. rooms s' rid = Some room' \<and>
               map_of (players room') uid = None \<and> uid \<notin> set (order room') \<and>
               order room' = remaining \<and>
               (\<forall>u. u \<noteq> uid \<longrightarrow> map_of (players room') u = map_of (players stored) u) \<and>
               (drawerUserId stored = Some uid \<and> status stored = Playing \<longrightarrow>
                  room' = advanceOrEndRoundRoom pf now w
                            ((withRoomDefaults stored)
                               \<lparr>players := AList.delete uid (players stored), order := remaining,
                                updatedAt := now, roundResolvedAt := Some now\<rparr>) \<and>
                  (of_int (roundNumber stored) < maxRounds (withRoomDefaults stored) \<longrightarrow>
                     status room' = Playing \<and> roundNumber room' = roundNumber stored + 1 \<and>
                     roundResolvedAt room' = None \<and> drawerUserId room' \<noteq> Some uid) \<and>
                  (maxRounds (withRoomDefaults stored) \<le> of_int (roundNumber stored) \<longrightarrow>
                     status room' = Ended)) \<and>
               (\<not> (drawerUserId stored = Some uid \<and> status stored = Playing) \<longrightarrow>
                  status room' = status stored \<and> roundNumber room' = roundNumber stored \<and>
                  drawerUserId room' = drawerUserId stored \<and>
                  roundResolvedAt room' = roundResolvedAt stored)"
    proof (cases "drawerUserId stored = Some uid \<and> status stored = Playing")
      case True
      let ?r1 = "?room\<lparr>roundResolvedAt := Some now\<rparr>"
      let ?r2 = "advanceOrEndRoundRoom pf now w ?r1"
      from two True have s2: "s' = advanceOrEndRound pf now w ?s1 ?r1"
        unfolding eq by simp
      have "roomId ?r1 = rid" using rid by simp
      from rooms_advanceOrEndRound[OF this] s2 have r: "rooms s' rid = Some ?r2" by simp
      have pl: "players ?r2 = AList.delete uid (players stored)" "order ?r2 = remaining"
        by (simp_all add: advanceOrEndRoundRoom_def Let_def)
      have nd: "of_int (roundNumber stored) < maxRounds (withRoomDefaults stored) \<longrightarrow>
                  status ?r2 = Playing \<and> roundNumber ?r2 = roundNumber stored + 1 \<and>
                  roundResolvedAt ?r2 = None \<and> drawerUserId ?r2 \<noteq> Some uid"
      proof
        assume lt: "of_int (roundNumber stored) < maxRounds (withRoomDefaults stored)"
        from two obtain first rest where rem: "remaining = first # rest" by (cases remaining) auto
        have idx: "indexOf remaining uid = - 1" using notin by (rule indexOf_absent)
        have "nextDrawer remaining (Some uid) = Some first"
          by (simp add: nextDrawer_def rem idx[unfolded rem] Let_def)
        moreover have "first \<noteq> uid" using notin rem by auto
        ultimately show "status ?r2 = Playing \<and> roundNumber ?r2 = roundNumber stored + 1 \<and>
                  roundResolvedAt ?r2 = None \<and> drawerUserId ?r2 \<noteq> Some uid"
          using lt True
          by (simp add: advanceOrEndRoundRoom_def Let_def withRoomDefaults_fields)
      qed
      have en: "maxRounds (withRoomDefaults stored) \<le> of_int (roundNumber stored) \<longrightarrow> status ?r2 = Ended"
        by (simp add: advanceOrEndRoundRoom_def Let_def withRoomDefaults_fields)
      have same: "?r1 = (withRoomDefaults stored)
                               \<lparr>players := AList.delete uid (players stored), order := remaining,
                                updatedAt := now, roundResolvedAt := Some now\<rparr>" by simp
      show ?thesis
        using r pl nd en True notin
        by (intro exI[of _ ?r2]) (simp add: delete_conv' same[symmetric] del: same)
    next
      case False
      from two False have s2: "s' = saveRoom ?s1 ?room"
        unfolding eq by auto
      have r: "rooms s' rid = Some ?room" unfolding s2 using rid by (simp add: saveRoom_def)
      show ?thesis
        using r False notin
        by (intro exI[of _ ?room]) (auto simp: delete_conv' withRoomDefaults_fields)
    qed
  qed
  from a b c show ?thesis by blast
qed

theorem leave_room_witness:
  "rooms exampleStore ''r1'' = Some exampleRoom \<and> roomId exampleRoom = ''r1'' \<and>
   drawerUserId exampleRoom = Some ''t2_bob'' \<and> status exampleRoom = Playing \<and>
   userRooms (snd (leaveHandler examplePlatform 100000 ''river'' exampleStore
                     (Some ''t2_bob'') None ''r1'')) ''t2_bob'' = None \<and>
   (\<exists>room'. rooms (snd (leaveHandler examplePlatform 100000 ''river'' exampleStore
                           (Some ''t2_bob'') None ''r1'')) ''r1'' = Some room' \<and>
            order room' = [''t2_alice'', ''t2_carol'', ''t2_dave''] \<and>
            map_of (players room') ''t2_bob'' = None \<and>
            roundNumber room' = 3 \<and> status room' = Playing) \<and>
   rooms (snd (leaveHandler examplePlatform 100000 ''river'' exampleDuoStore
                 (Some ''t2_alice'') None ''r1'')) ''r1'' = None \<and>
   userRooms (snd (leaveHandler examplePlatform 100000 ''river'' exampleDuoStore
                 (Some ''t2_alice'') None ''r1'')) ''t2_alice'' = None \<and>
   userRooms (snd (leaveHandler examplePlatform 100000 ''river'' exampleDuoStore
                 (Some ''t2_alice'') None ''r1'')) ''t2_bob'' = None"
proof -
  let ?duo = "exampleRoom\<lparr>players := take 2 (players exampleRoom), order := take 2 (order exampleRoom)\<rparr>"
  have r: "rooms exampleStore ''r1'' = Some exampleRoom" by (simp add: exampleStore_def)
  have id: "roomId exampleRoom = ''r1''" by code_simp
  have d: "drawerUserId exampleRoom = Some ''t2_bob''" by code_simp
  have p: "status exampleRoom = Playing" by code_simp
  have rem: "filter (\<lambda>i. i \<noteq> ''t2_bob'') (order exampleRoom) = [''t2_alice'', ''t2_carol'', ''t2_dave'']"
    by code_simp
  have lt: "of_int (roundNumber exampleRoom) < maxRounds (withRoomDefaults exampleRoom)" by code_simp
  have rn: "roundNumber exampleRoom + 1 = 3" by code_simp
  have ne: "''t2_bob'' \<noteq> []" "''t2_alice'' \<noteq> []" by simp_all
  note one = leave_room[where s = exampleStore and ctxUser = "Some ''t2_bob''" and uid = "''t2_bob''"
      and rid = "''r1''" and stored = exampleRoom and pf = examplePlatform and now = 100000
      and w = "''river''" and ctxName = None, OF refl ne(1) r id, unfolded rem]
  from one have a: "userRooms (snd (leaveHandler examplePlatform 100000 ''river'' exampleStore
                     (Some ''t2_bob'') None ''r1'')) ''t2_bob'' = None" by blast
  from one d p lt rn have b: "\<exists>room'. rooms (snd (leaveHandler examplePlatform 100000 ''river'' exampleStore
                           (Some ''t2_bob'') None ''r1'')) ''r1'' = Some room' \<and>
            order room' = [''t2_alice'', ''t2_carol'', ''t2_dave''] \<and>
            map_of (players room') ''t2_bob'' = None \<and>
            roundNumber room' = 3 \<and> status room' = Playing"
    by auto
  have r2: "rooms exampleDuoStore ''r1'' = Some ?duo" by (simp add: exampleDuoStore_def)
  have id2: "roomId ?duo = ''r1''" by code_simp
  have rem2: "filter (\<lambda>i. i \<noteq> ''t2_alice'') (order ?duo) = [''t2_bob'']" by code_simp
  note two = leave_room[where s = exampleDuoStore and ctxUser = "Some ''t2_alice''" and uid = "''t2_alice''"
      and rid = "''r1''" and stored = ?duo and pf = examplePlatform and now = 100000
      and w = "''river''" and ctxName = None, OF refl ne(2) r2 id2, unfolded rem2]
  from two have c:
    "rooms (snd (leaveHandler examplePlatform 100000 ''river'' exampleDuoStore
                 (Some ''t2_alice'') None ''r1'')) ''r1'' = None"
    "userRooms (snd (leaveHandler examplePlatform 100000 ''river'' exampleDuoStore
                 (Some ''t2_alice'') None ''r1'')) ''t2_alice'' = None"
    "userRooms (snd (leaveHandler examplePlatform 100000 ''river'' exampleDuoStore
                 (Some ''t2_alice'') None ''r1'')) ''t2_bob'' = None"
    by simp_all
  from r id d p a b c show ?thesis by blast
qed

section \<open>The user-room index\<close>

lemma isPlayerOf_iff:
  "isPlayerOf s rid uid \<longleftrightarrow> (\<exists>room. rooms s rid = Some room \<and> map_of (players room) uid \<noteq> None)"
  by (auto simp: isPlayerOf_def loadRoom_def withRoomDefaults_fields split: option.splits)

lemma sessionFromQueue_store: "snd (sessionFromQueue s uid) = s"
  by (simp add: sessionFromQueue_def Let_def)

lemma sessionFromQueue_resp: "fst (sessionFromQueue s uid) \<noteq> SessionMatched rid"
  by (simp add: sessionFromQueue_def Let_def)

lemma sessionHandler_matched:
  assumes "sessionHandler s (Some uid) = (SessionMatched rid, s')"
  shows "userRooms s uid = Some rid \<and> isPlayerOf s rid uid \<and> s' = s"
proof -
  have nq: "\<And>st. sessionFromQueue st uid \<noteq> (SessionMatched rid, s')"
    using sessionFromQueue_resp[of _ uid rid] by (metis fst_conv)
  from assms nq show ?thesis
    by (auto simp: sessionHandler_def getUserRoom_def split: if_splits option.splits)
qed

lemma sessionHandler_stale:
  assumes "sessionHandler s (Some uid) = (resp, s')" and "uid \<noteq> []"
    and "userRooms s uid = Some rid" and "rid \<noteq> []" and "\<not> isPlayerOf s rid uid"
  shows "userRooms s' uid = None \<and> (resp = SessionMenu \<or> (\<exists>n. resp = SessionQueued n))"
proof -
  from assms have "sessionFromQueue (setUserRoom s uid None) uid = (resp, s')"
    by (simp add: sessionHandler_def getUserRoom_def)
  then have s': "s' = setUserRoom s uid None" and r: "resp = fst (sessionFromQueue (setUserRoom s uid None) uid)"
    using sessionFromQueue_store[of "setUserRoom s uid None" uid] by auto
  from r have "resp = SessionMenu \<or> (\<exists>n. resp = SessionQueued n)"
    by (simp add: sessionFromQueue_def Let_def)
  with s' show ?thesis by (simp add: setUserRoom_None)
qed

lemma fold_assign_userRooms:
  "userRooms (fold (\<lambda>p st. setUserRoom st (QueueEntry.userId p) (Some r)) picked s) u =
     (if u \<in> set (map QueueEntry.userId picked) then (if r \<noteq> [] then Some r else None)
      else userRooms s u)"
  by (induction picked arbitrary: s) (auto simp: setUserRoom_eq)

lemma fold_assign_queue:
  "queue (fold (\<lambda>p st. setUserRoom st (QueueEntry.userId p) (Some r)) picked s) = queue s"
  by (induction picked arbitrary: s) (auto simp: setUserRoom_eq)

lemma fst_set_fold_update:
  "fst ` set (fold (\<lambda>(k, v). AList.update k v) es acc) = fst ` set acc \<union> fst ` set es"
proof (induction es arbitrary: acc)
  case Nil
  then show ?case by simp
next
  case (Cons e es)
  obtain k v where e: "e = (k, v)" by (cases e)
  show ?case using Cons.IH[of "AList.update k v acc"] e by (auto simp: dom_update)
qed

lemma map_of_fromEntries_dom: "map_of (fromEntries es) k \<noteq> None \<longleftrightarrow> k \<in> fst ` set es"
proof -
  have "map_of (fromEntries es) k \<noteq> None \<longleftrightarrow> k \<in> fst ` set (fromEntries es)"
    by (simp add: map_of_eq_None_iff)
  then show ?thesis by (simp add: fromEntries_def fst_set_fold_update)
qed

lemma newRoom_player:
  "map_of (players (newRoom pf now rid w picked)) u \<noteq> None \<longleftrightarrow> u \<in> set (map QueueEntry.userId picked)"
proof -
  have "fst ` set (map (\<lambda>p. (QueueEntry.userId p,
                       \<lparr>Player.userId = QueueEntry.userId p, userName = QueueEntry.userName p,
                        score = 0, lastSeen = QueueEntry.lastSeen p\<rparr>)) picked)
          = set (map QueueEntry.userId picked)"
    by (auto simp: image_iff)
  then have "u \<in> fst ` set (map (\<lambda>p. (QueueEntry.userId p,
                       \<lparr>Player.userId = QueueEntry.userId p, userName = QueueEntry.userName p,
                        score = 0, lastSeen = QueueEntry.lastSeen p\<rparr>)) picked)
          \<longleftrightarrow> u \<in> set (map QueueEntry.userId picked)" by (simp only:)
  moreover have "players (newRoom pf now rid w picked) =
      fromEntries (map (\<lambda>p. (QueueEntry.userId p,
                       \<lparr>Player.userId = QueueEntry.userId p, userName = QueueEntry.userName p,
                        score = 0, lastSeen = QueueEntry.lastSeen p\<rparr>)) picked)"
    by (simp add: newRoom_def Let_def)
  ultimately show ?thesis by (simp only: map_of_fromEntries_dom)
qed

lemma maybeStart_store:
  assumes "maybeStartMatchForPost pf now rid w s = Inr s'"
  shows "(userRooms s' = userRooms s \<and> rooms s' = rooms s) \<or>
         (\<exists>picked. rooms s' = (rooms s)(rid \<mapsto> newRoom pf now rid w picked) \<and>
            (\<forall>u. userRooms s' u =
               (if u \<in> set (map QueueEntry.userId picked) then (if rid \<noteq> [] then Some rid else None)
                else userRooms s u)))"
proof (cases "tryMatchPickAtomic pf now (queue s) []")
  case (Pair res q')
  show ?thesis
  proof (cases res)
    case (Inl e)
    with assms Pair show ?thesis by (simp add: maybeStartMatchForPost_def)
  next
    case (Inr po)
    show ?thesis
    proof (cases po)
      case None
      with assms Pair Inr show ?thesis by (auto simp: maybeStartMatchForPost_def)
    next
      case (Some picked)
      show ?thesis
      proof (cases "picked = []")
        case True
        with assms Pair Inr Some show ?thesis by (auto simp: maybeStartMatchForPost_def)
      next
        case False
        with assms Pair Inr Some have
          s': "s' = fold (\<lambda>p st. setUserRoom st (QueueEntry.userId p) (Some rid)) picked
                  (saveRoom (s\<lparr>queue := q'\<rparr>) (newRoom pf now rid w picked))"
          by (simp add: maybeStartMatchForPost_def Let_def)
        have rid: "roomId (newRoom pf now rid w picked) = rid" by (simp add: newRoom_def Let_def)
        have r: "rooms s' = (rooms s)(rid \<mapsto> newRoom pf now rid w picked)"
          unfolding s' by (simp add: rooms_fold_setUserRoom saveRoom_def rid)
        have u: "\<forall>u. userRooms s' u =
               (if u \<in> set (map QueueEntry.userId picked) then (if rid \<noteq> [] then Some rid else None)
                else userRooms s u)"
          unfolding s' by (simp add: fold_assign_userRooms userRooms_saveRoom del: set_map)
        from r u show ?thesis by blast
      qed
    qed
  qed
qed

lemma joinQueue_result:
  assumes j: "joinQueue pf now rid w s uid uname = (resp, s')"
    and idx: "userRooms s uid = None \<or> userRooms s uid = Some []"
  shows "(\<forall>r. resp = JoinMatched r \<longrightarrow> userRooms s' uid = Some r \<and> isPlayerOf s' r uid) \<and>
         (userRooms s' uid = None \<or> userRooms s' uid = userRooms s uid \<or>
          (userRooms s' uid = Some rid \<and> isPlayerOf s' rid uid))"
proof -
  let ?s2 = "s\<lparr>queue := snd (queueUpsertAtomic uid uname now (effInactiveKickSeconds pf) (queue s) [])\<rparr>"
  show ?thesis
  proof (cases "maybeStartMatchForPost pf now rid w ?s2")
    case (Inl e)
    with j have "resp = JoinError" "s' = ?s2" by (simp_all add: joinQueue_def Let_def)
    with idx show ?thesis by auto
  next
    case (Inr s3)
    from j Inr have s': "s' = s3"
      by (auto simp: joinQueue_def Let_def getUserRoom_def split: option.splits if_splits)
    from j Inr have m: "\<forall>r. resp = JoinMatched r \<longrightarrow> userRooms s3 uid = Some r \<and> r \<noteq> []"
      by (auto simp: joinQueue_def Let_def getUserRoom_def split: option.splits if_splits)
    from maybeStart_store[OF Inr] have
      shape: "userRooms s3 uid = None \<or> userRooms s3 uid = userRooms s uid \<or>
          (userRooms s3 uid = Some rid \<and> isPlayerOf s3 rid uid)"
    proof
      assume "userRooms s3 = userRooms ?s2 \<and> rooms s3 = rooms ?s2"
      with idx show ?thesis by auto
    next
      assume "\<exists>picked. rooms s3 = (rooms ?s2)(rid \<mapsto> newRoom pf now rid w picked) \<and>
            (\<forall>u. userRooms s3 u =
               (if u \<in> set (map QueueEntry.userId picked) then (if rid \<noteq> [] then Some rid else None)
                else userRooms ?s2 u))"
      then obtain picked where
        r: "rooms s3 = (rooms ?s2)(rid \<mapsto> newRoom pf now rid w picked)" and
        u: "userRooms s3 uid =
               (if uid \<in> set (map QueueEntry.userId picked) then (if rid \<noteq> [] then Some rid else None)
                else userRooms ?s2 uid)" by blast
      show ?thesis
      proof (cases "uid \<in> set (map QueueEntry.userId picked)")
        case True
        then have "isPlayerOf s3 rid uid"
          unfolding isPlayerOf_iff r using newRoom_player[of pf now rid w picked uid] by simp
        with u True show ?thesis by auto
      next
        case False
        with u idx show ?thesis by auto
      qed
    qed
    from m shape idx have "\<forall>r. resp = JoinMatched r \<longrightarrow> userRooms s3 uid = Some r \<and> isPlayerOf s3 r uid"
      by auto
    with shape s' show ?thesis by simp
  qed
qed

lemma joinHandler_result:
  assumes j: "joinHandler pf now newRoomId w s (Some uid) ctxName = (resp, s')"
  shows "(\<forall>rid. resp = JoinMatched rid \<longrightarrow> userRooms s' uid = Some rid \<and> isPlayerOf s' rid uid) \<and>
         (\<forall>rid. uid \<noteq> [] \<and> userRooms s uid = Some rid \<and> rid \<noteq> [] \<and> \<not> isPlayerOf s rid uid \<longrightarrow>
            userRooms s' uid = None \<or> (userRooms s' uid = Some newRoomId \<and> isPlayerOf s' newRoomId uid))"
proof (cases "uid = []")
  case True
  with j have "resp = JoinError" "s' = s" by (simp_all add: joinHandler_def ensureContext_def)
  with True show ?thesis by simp
next
  case False
  define uname where "uname = (case ctxName of Some n \<Rightarrow> n | None \<Rightarrow> uid)"
  have ec: "ensureContext (Some uid) ctxName = Inr (uid, uname)"
    using False by (simp add: ensureContext_Some uname_def)
  show ?thesis
  proof (cases "userRooms s uid")
    case None
    with j ec have "joinQueue pf now newRoomId w s uid uname = (resp, s')"
      by (simp add: joinHandler_def getUserRoom_def)
    from joinQueue_result[OF this] None show ?thesis by auto
  next
    case (Some existing)
    show ?thesis
    proof (cases "existing = []")
      case True
      with j ec Some have "joinQueue pf now newRoomId w s uid uname = (resp, s')"
        by (simp add: joinHandler_def getUserRoom_def)
      from joinQueue_result[OF this] Some True show ?thesis by auto
    next
      case ne: False
      show ?thesis
      proof (cases "isPlayerOf s existing uid")
        case True
        with j ec Some ne have "resp = JoinMatched existing" "s' = s"
          by (simp_all add: joinHandler_def getUserRoom_def)
        with Some True show ?thesis by auto
      next
        case stale: False
        let ?s1 = "setUserRoom s uid None"
        from j ec Some ne stale have q: "joinQueue pf now newRoomId w ?s1 uid uname = (resp, s')"
          by (simp add: joinHandler_def getUserRoom_def)
        have "userRooms ?s1 uid = None" by (simp add: setUserRoom_None)
        then have "userRooms ?s1 uid = None \<or> userRooms ?s1 uid = Some []" by simp
        from joinQueue_result[OF q this] \<open>userRooms ?s1 uid = None\<close> have
          a: "\<forall>r. resp = JoinMatched r \<longrightarrow> userRooms s' uid = Some r \<and> isPlayerOf s' r uid" and
          b: "userRooms s' uid = None \<or>
                (userRooms s' uid = Some newRoomId \<and> isPlayerOf s' newRoomId uid)"
          by auto
        from a b show ?thesis by blast
      qed
    qed
  qed
qed


text \<open>
  Claim C5. \<open>isPlayerOf s rid uid\<close> says that the store holds a room \<open>rid\<close> whose
  players map lists \<open>uid\<close>. The session handler answers \<open>matched\<close> only with the
  room the index names and only when that room lists the user; when the index names a
  room that does not list the user, it clears the entry and answers from the queue. The
  join handler answers \<open>matched\<close> only with a room that the index names and that lists
  the user when the handler returns; a stale entry it finds is cleared, and afterwards
  the index is empty for the user or names the room just created with the user in it.
\<close>

theorem index_self_heals:
  fixes s :: store
  shows
  "(isPlayerOf s rid uid \<longleftrightarrow>
      (\<exists>room. rooms s rid = Some room \<and> map_of (players room) uid \<noteq> None)) \<and>
   (\<forall>resp s'.
      sessionHandler s (Some uid) = (resp, s') \<longrightarrow>
        (\<forall>r. resp = SessionMatched r \<longrightarrow> userRooms s uid = Some r \<and> isPlayerOf s r uid \<and> s' = s) \<and>
        (uid \<noteq> [] \<and> userRooms s uid = Some rid \<and> rid \<noteq> [] \<and> \<not> isPlayerOf s rid uid \<longrightarrow>
           userRooms s' uid = None \<and> (resp = SessionMenu \<or> (\<exists>n. resp = SessionQueued n)))) \<and>
   (\<forall>pf now newRoomId w ctxName resp s'.
      joinHandler pf now newRoomId w s (Some uid) ctxName = (resp, s') \<longrightarrow>
        (\<forall>r. resp = JoinMatched r \<longrightarrow> userRooms s' uid = Some r \<and> isPlayerOf s' r uid) \<and>
        (uid \<noteq> [] \<and> userRooms s uid = Some rid \<and> rid \<noteq> [] \<and> \<not> isPlayerOf s rid uid \<longrightarrow>
           userRooms s' uid = None \<or>
           (userRooms s' uid = Some newRoomId \<and> isPlayerOf s' newRoomId uid)))"
proof -
  have A: "isPlayerOf s rid uid \<longleftrightarrow>
      (\<exists>room. rooms s rid = Some room \<and> map_of (players room) uid \<noteq> None)"
    by (rule isPlayerOf_iff)
  have B: "\<forall>resp s'.
      sessionHandler s (Some uid) = (resp, s') \<longrightarrow>
        (\<forall>r. resp = SessionMatched r \<longrightarrow> userRooms s uid = Some r \<and> isPlayerOf s r uid \<and> s' = s) \<and>
        (uid \<noteq> [] \<and> userRooms s uid = Some rid \<and> rid \<noteq> [] \<and> \<not> isPlayerOf s rid uid \<longrightarrow>
           userRooms s' uid = None \<and> (resp = SessionMenu \<or> (\<exists>n. resp = SessionQueued n)))"
  proof (intro allI impI)
    fix resp s'
    assume h: "sessionHandler s (Some uid) = (resp, s')"
    have 1: "\<forall>r. resp = SessionMatched r \<longrightarrow> userRooms s uid = Some r \<and> isPlayerOf s r uid \<and> s' = s"
      using h sessionHandler_matched[of s uid _ s'] by blast
    have 2: "uid \<noteq> [] \<and> userRooms s uid = Some rid \<and> rid \<noteq> [] \<and> \<not> isPlayerOf s rid uid \<longrightarrow>
           userRooms s' uid = None \<and> (resp = SessionMenu \<or> (\<exists>n. resp = SessionQueued n))"
      using h sessionHandler_stale[of s uid resp s' rid] by blast
    from 1 2 show "(\<forall>r. resp = SessionMatched r \<longrightarrow> userRooms s uid = Some r \<and> isPlayerOf s r uid \<and> s' = s) \<and>
        (uid \<noteq> [] \<and> userRooms s uid = Some rid \<and> rid \<noteq> [] \<and> \<not> isPlayerOf s rid uid \<longrightarrow>
           userRooms s' uid = None \<and> (resp = SessionMenu \<or> (\<exists>n. resp = SessionQueued n)))" ..
  qed
  have C: "\<forall>pf now newRoomId w ctxName resp s'.
      joinHandler pf now newRoomId w s (Some uid) ctxName = (resp, s') \<longrightarrow>
        (\<forall>r. resp = JoinMatched r \<longrightarrow> userRooms s' uid = Some r \<and> isPlayerOf s' r uid) \<and>
        (uid \<noteq> [] \<and> userRooms s uid = Some rid \<and> rid \<noteq> [] \<and> \<not> isPlayerOf s rid uid \<longrightarrow>
           userRooms s' uid = None \<or>
           (userRooms s' uid = Some newRoomId \<and> isPlayerOf s' newRoomId uid))"
  proof (intro allI impI)
    fix pf now newRoomId w ctxName resp s'
    assume h: "joinHandler pf now newRoomId w s (Some uid) ctxName = (resp, s')"
    from joinHandler_result[OF h]
    show "(\<forall>r. resp = JoinMatched r \<longrightarrow> userRooms s' uid = Some r \<and> isPlayerOf s' r uid) \<and>
        (uid \<noteq> [] \<and> userRooms s uid = Some rid \<and> rid \<noteq> [] \<and> \<not> isPlayerOf s rid uid \<longrightarrow>
           userRooms s' uid = None \<or>
           (userRooms s' uid = Some newRoomId \<and> isPlayerOf s' newRoomId uid))"
      by blast
  qed
  from A B C show ?thesis by blast
qed

theorem index_self_heals_witness:
  "userRooms exampleStore ''t2_erin'' = Some ''r0'' \<and>
   \<not> isPlayerOf exampleStore ''r0'' ''t2_erin'' \<and>
   fst (sessionHandler exampleStore (Some ''t2_erin'')) = SessionMenu \<and>
   userRooms (snd (sessionHandler exampleStore (Some ''t2_erin''))) ''t2_erin'' = None \<and>
   fst (sessionHandler exampleStore (Some ''t2_bob'')) = SessionMatched ''r1'' \<and>
   isPlayerOf exampleStore ''r1'' ''t2_bob'' \<and>
   fst (joinHandler examplePlatform 100000 ''r2'' ''river'' (exampleStore\<lparr>queue := take 1 exampleQueue\<rparr>)
          (Some ''t2_erin'') None) = JoinMatched ''r2'' \<and>
   isPlayerOf (snd (joinHandler examplePlatform 100000 ''r2'' ''river''
                      (exampleStore\<lparr>queue := take 1 exampleQueue\<rparr>) (Some ''t2_erin'') None))
      ''r2'' ''t2_erin''"
proof -
  let ?sj = "exampleStore\<lparr>queue := take 1 exampleQueue\<rparr>"
  have i: "userRooms exampleStore ''t2_erin'' = Some ''r0''" by (simp add: exampleStore_def)
  have n: "\<not> isPlayerOf exampleStore ''r0'' ''t2_erin''" by code_simp
  have m: "fst (sessionHandler exampleStore (Some ''t2_erin'')) = SessionMenu" by code_simp
  have b: "fst (sessionHandler exampleStore (Some ''t2_bob'')) = SessionMatched ''r1''" by code_simp
  have j: "fst (joinHandler examplePlatform 100000 ''r2'' ''river'' ?sj (Some ''t2_erin'') None)
             = JoinMatched ''r2''" by code_simp
  note inst = index_self_heals
  have pre: "''t2_erin'' \<noteq> [] \<and> userRooms exampleStore ''t2_erin'' = Some ''r0'' \<and> ''r0'' \<noteq> [] \<and>
             \<not> isPlayerOf exampleStore ''r0'' ''t2_erin''"
    using i n by simp
  from inst[where s = exampleStore and rid = "''r0''" and uid = "''t2_erin''",
        THEN conjunct2, THEN conjunct1, rule_format,
        of "fst (sessionHandler exampleStore (Some ''t2_erin''))"
           "snd (sessionHandler exampleStore (Some ''t2_erin''))"]
  have c: "userRooms (snd (sessionHandler exampleStore (Some ''t2_erin''))) ''t2_erin'' = None"
    using pre by (simp add: prod_eq_iff)
  from inst[where s = exampleStore and rid = "''r1''" and uid = "''t2_bob''",
        THEN conjunct2, THEN conjunct1, rule_format,
        of "fst (sessionHandler exampleStore (Some ''t2_bob''))"
           "snd (sessionHandler exampleStore (Some ''t2_bob''))"] b
  have d: "isPlayerOf exampleStore ''r1'' ''t2_bob''" by (simp add: prod_eq_iff)
  from inst[where s = ?sj and rid = "''r0''" and uid = "''t2_erin''",
        THEN conjunct2, THEN conjunct2, rule_format,
        of examplePlatform 100000 "''r2''" "''river''" None
           "fst (joinHandler examplePlatform 100000 ''r2'' ''river'' ?sj (Some ''t2_erin'') None)"
           "snd (joinHandler examplePlatform 100000 ''r2'' ''river'' ?sj (Some ''t2_erin'') None)"] j
  have e: "isPlayerOf (snd (joinHandler examplePlatform 100000 ''r2'' ''river'' ?sj (Some ''t2_erin'') None))
      ''r2'' ''t2_erin''" by (simp add: prod_eq_iff)
  from i n m c b d j e show ?thesis by blast
qed

section \<open>The round number over sequences of requests\<close>













lemma guessHandler_changed:
  assumes "snd (guessHandler pf now w s ctxUser ctxName rid textRaw) \<noteq> s"
  shows "\<exists>uid stored. rooms s rid = Some stored \<and> status (withRoomDefaults stored) = Playing \<and>
           snd (guessHandler pf now w s ctxUser ctxName rid textRaw) =
             advanceOrEndRound pf now w
               (s\<lparr>rooms := (rooms s)(rid \<mapsto> awardPoints (withRoomDefaults stored) uid now)\<rparr>)
               (awardPoints (withRoomDefaults stored) uid now)"
proof (cases "ensureContext ctxUser ctxName")
  case (Inl e)
  with assms show ?thesis by (simp add: guessHandler_def)
next
  case (Inr p)
  obtain uid uname where p: "p = (uid, uname)" by (cases p)
  show ?thesis
  proof (cases "rooms s rid")
    case None
    with assms Inr p show ?thesis by (simp add: guessHandler_def loadRoom_def)
  next
    case (Some stored)
    show ?thesis
    proof (cases "guessTxn uid now (rooms s rid)")
      case (Return resp)
      with assms Inr p Some show ?thesis
        by (simp add: guessHandler_def loadRoom_def casLoop_quiet store_rooms_same_Some Let_def
              split: if_splits option.splits)
    next
      case (Write v' r')
      from guessTxn_Write[OF Write] Some have
        w: "v' = Some r'" "r' = awardPoints (withRoomDefaults stored) uid now"
           "status (withRoomDefaults stored) = Playing"
        by auto
      have "snd (guessHandler pf now w s ctxUser ctxName rid textRaw) = s \<or>
            snd (guessHandler pf now w s ctxUser ctxName rid textRaw) =
              advanceOrEndRound pf now w (s\<lparr>rooms := (rooms s)(rid := v')\<rparr>) r'"
        using Inr p Some Write
        by (auto simp: guessHandler_def loadRoom_def casLoop_quiet Let_def split: option.splits)
      with assms w Some show ?thesis by auto
    qed
  qed
qed



















section \<open>What the broadcast and the state query reveal\<close>

lemma publicState_word:
  "RoomPublicState.word (publicState room viewerId) =
     (if drawerUserId room = Some viewerId then word room else None)"
  by (simp add: publicState_def Let_def)

lemma publicState_wordMask:
  "wordMask (publicState room viewerId) =
     (if truthyStr (word room) then map_option maskWord (word room) else None)"
  by (simp add: publicState_def Let_def)

lemma maskWord_length: "length (maskWord w) = length w"
  by (simp add: maskWord_def)

lemma underscore_not_letter: "\<not> isAsciiLetter CHR ''_''"
  by (simp add: isAsciiLetter_def)

lemma maskWord_no_letter: "c \<in> set (maskWord w) \<Longrightarrow> \<not> isAsciiLetter c"
  by (auto simp: maskWord_def underscore_not_letter)

lemma roomStateHandler_Inr:
  assumes "roomStateHandler s ctxUser ctxName rid = Inr st"
  shows "\<exists>uid room. ctxUser = Some uid \<and> uid \<noteq> [] \<and> rooms s rid = Some room \<and>
           map_of (players room) uid \<noteq> None \<and> st = publicState (withRoomDefaults room) uid"
  using assms
  by (auto simp: roomStateHandler_def ensureContext_def loadRoom_def withRoomDefaults_def
           split: option.splits if_splits sum.splits)

subsection \<open>User identifiers in the store\<close>

lemma isUserId_not_sentinel: "isUserId d \<Longrightarrow> d \<noteq> ''not-a-viewer''"
  by (auto simp: isUserId_def)

lemma nextDrawer_in_order: "nextDrawer ord d = Some x \<Longrightarrow> x \<in> set ord"
proof (cases ord)
  case Nil
  assume "nextDrawer ord d = Some x"
  with Nil show ?thesis by (simp add: nextDrawer_def)
next
  case (Cons first rest)
  assume a: "nextDrawer ord d = Some x"
  define k where "k = (indexOf ord (case d of Some d' \<Rightarrow> d' | None \<Rightarrow> first) + 1) mod int (length ord)"
  have pos: "0 < int (length ord)" using Cons by simp
  have "0 \<le> k" "k < int (length ord)" unfolding k_def using pos by simp_all
  then have lt: "nat k < length ord" by linarith
  from a Cons have "x = ord ! nat k" by (simp add: nextDrawer_def Let_def k_def)
  with lt show ?thesis by simp
qed

lemma roomIds_advance:
  assumes "roomIds r"
  shows "roomIds (advanceOrEndRoundRoom pf now w r)"
proof (cases "maxRounds r \<le> of_int (roundNumber r)")
  case True
  with assms show ?thesis by (simp add: advanceOrEndRoundRoom_def roomIds_def)
next
  case False
  then have o: "order (advanceOrEndRoundRoom pf now w r) = order r"
    and d: "drawerUserId (advanceOrEndRoundRoom pf now w r) = nextDrawer (order r) (drawerUserId r)"
    by (simp_all add: advanceOrEndRoundRoom_def Let_def)
  show ?thesis
    unfolding roomIds_def o d using assms nextDrawer_in_order[of "order r" "drawerUserId r"]
    by (auto simp: roomIds_def)
qed

lemma roomIds_sub:
  assumes "roomIds r" and "set (order r') \<subseteq> set (order r)"
    and "drawerUserId r' = drawerUserId r \<or> drawerUserId r' = None"
  shows "roomIds r'"
  using assms by (auto simp: roomIds_def)

lemma roomIds_defaults: "roomIds r \<Longrightarrow> roomIds (withRoomDefaults r)"
  by (erule roomIds_sub) (simp_all add: withRoomDefaults_fields)

lemma roomIds_awardPoints: "roomIds r \<Longrightarrow> roomIds (awardPoints r uid now)"
  by (erule roomIds_sub) (simp_all add: awardPoints_fields)

lemma storeIds_upd:
  assumes "storeIds s" and "\<And>r. v = Some r \<Longrightarrow> roomIds r"
  shows "storeIds (s\<lparr>rooms := (rooms s)(rid := v)\<rparr>)"
  using assms by (auto simp: storeIds_def)

lemma storeIds_saveRoom: "storeIds s \<Longrightarrow> roomIds r \<Longrightarrow> storeIds (saveRoom s r)"
  by (auto simp: storeIds_def saveRoom_def)

lemma storeIds_deleteRoom: "storeIds s \<Longrightarrow> storeIds (deleteRoom s rid)"
  by (auto simp: storeIds_def deleteRoom_def)

lemma storeIds_setUserRoom: "storeIds (setUserRoom s uid rid) = storeIds s"
  by (simp add: storeIds_def setUserRoom_def)

lemma storeIds_fold_setUserRoom:
  "storeIds (fold (\<lambda>p st. setUserRoom st (f p) (g p)) ps s) = storeIds s"
  by (induction ps arbitrary: s) (simp_all add: storeIds_setUserRoom)

lemma storeIds_advanceOrEndRound:
  "storeIds s \<Longrightarrow> roomIds r \<Longrightarrow> storeIds (advanceOrEndRound pf now w s r)"
  by (simp add: advanceOrEndRound_def storeIds_saveRoom roomIds_advance)

lemma storeIds_room: "storeIds s \<Longrightarrow> rooms s rid = Some r \<Longrightarrow> roomIds r"
  by (auto simp: storeIds_def)

lemma storeIds_guessHandler:
  assumes "storeIds s"
  shows "storeIds (snd (guessHandler pf now w s ctxUser ctxName rid textRaw))"
proof (cases "snd (guessHandler pf now w s ctxUser ctxName rid textRaw) = s")
  case True
  with assms show ?thesis by simp
next
  case False
  from guessHandler_changed[OF False] obtain uid stored where
    st: "rooms s rid = Some stored" and
    s': "snd (guessHandler pf now w s ctxUser ctxName rid textRaw) =
             advanceOrEndRound pf now w
               (s\<lparr>rooms := (rooms s)(rid \<mapsto> awardPoints (withRoomDefaults stored) uid now)\<rparr>)
               (awardPoints (withRoomDefaults stored) uid now)"
    by blast
  have r: "roomIds (awardPoints (withRoomDefaults stored) uid now)"
    by (intro roomIds_awardPoints roomIds_defaults storeIds_room[OF assms st])
  show ?thesis unfolding s'
    by (intro storeIds_advanceOrEndRound storeIds_upd assms) (simp_all add: r)
qed

lemma storeIds_advanceHandler:
  assumes "storeIds s"
  shows "storeIds (snd (advanceHandler pf now w s ctxUser ctxName rid))"
proof (cases "snd (advanceHandler pf now w s ctxUser ctxName rid) = s")
  case True
  with assms show ?thesis by simp
next
  case False
  from advanceHandler_changed[OF False] obtain uid stored where
    st: "rooms s rid = Some stored" and
    s': "snd (advanceHandler pf now w s ctxUser ctxName rid) =
             advanceOrEndRound pf now w
               (s\<lparr>rooms := (rooms s)(rid \<mapsto> (withRoomDefaults stored)\<lparr>roundResolvedAt := Some now, updatedAt := now\<rparr>)\<rparr>)
               ((withRoomDefaults stored)\<lparr>roundResolvedAt := Some now, updatedAt := now\<rparr>)"
    by blast
  have r: "roomIds ((withRoomDefaults stored)\<lparr>roundResolvedAt := Some now, updatedAt := now\<rparr>)"
    by (rule roomIds_sub[OF storeIds_room[OF assms st]]) (simp_all add: withRoomDefaults_fields)
  show ?thesis unfolding s'
    by (intro storeIds_advanceOrEndRound storeIds_upd assms) (simp_all add: r)
qed

lemma storeIds_leaveHandler:
  assumes "storeIds s"
  shows "storeIds (snd (leaveHandler pf now w s ctxUser ctxName rid))"
proof (cases "ensureContext ctxUser ctxName")
  case (Inl e)
  with assms show ?thesis by (simp add: leaveHandler_def)
next
  case (Inr p)
  obtain uid uname where p: "p = (uid, uname)" by (cases p)
  from ensureContext_Inr Inr p have cu: "ctxUser = Some uid" "uid \<noteq> []" by blast+
  show ?thesis
  proof (cases "rooms s rid")
    case None
    with Inr p assms show ?thesis
      by (simp add: leaveHandler_def loadRoom_def storeIds_setUserRoom)
  next
    case (Some stored)
    let ?room = "(withRoomDefaults stored)\<lparr>players := AList.delete uid (players stored),
                                             order := filter (\<lambda>i. i \<noteq> uid) (order stored),
                                             updatedAt := now\<rparr>"
    have r: "roomIds ?room"
      by (rule roomIds_sub[OF storeIds_room[OF assms Some]]) (auto simp: withRoomDefaults_fields)
    have r1: "roomIds (?room\<lparr>roundResolvedAt := Some now\<rparr>)"
      by (rule roomIds_sub[OF r]) simp_all
    have s1: "storeIds (setUserRoom s uid None)" using assms by (simp add: storeIds_setUserRoom)
    show ?thesis
      unfolding cu(1) leaveHandler_eq[OF cu(2) Some] Let_def
      using s1 r r1
      by (simp add: storeIds_deleteRoom storeIds_fold_setUserRoom storeIds_advanceOrEndRound
            storeIds_saveRoom)
  qed
qed

lemma storeIds_pingHandler:
  assumes "storeIds s"
  shows "storeIds (snd (pingHandler now s ctxUser ctxName))"
proof (cases "snd (pingHandler now s ctxUser ctxName) = s")
  case True
  with assms show ?thesis by simp
next
  case False
  then obtain uid rid stored where
    st: "rooms s rid = Some stored" and
    s': "snd (pingHandler now s ctxUser ctxName) =
           saveRoom s ((withRoomDefaults stored)\<lparr>players := AList.map_entry uid (\<lambda>p. p\<lparr>Player.lastSeen := now\<rparr>)
                                                      (players (withRoomDefaults stored)),
                                           updatedAt := now\<rparr>)"
    by (auto simp: pingHandler_def getUserRoom_def loadRoom_def split: sum.splits option.splits if_splits)
  have "roomIds ((withRoomDefaults stored)\<lparr>players := AList.map_entry uid (\<lambda>p. p\<lparr>Player.lastSeen := now\<rparr>)
                                                      (players (withRoomDefaults stored)),
                                           updatedAt := now\<rparr>)"
    by (rule roomIds_sub[OF storeIds_room[OF assms st]]) (simp_all add: withRoomDefaults_fields)
  with assms show ?thesis unfolding s' by (simp add: storeIds_saveRoom)
qed

lemma storeIds_roomGc: "storeIds s \<Longrightarrow> storeIds (roomGc now s rid)"
  by (simp add: roomGc_def Let_def storeIds_deleteRoom storeIds_fold_setUserRoom split: option.splits)

lemma storeIds_serve: "storeIds s \<Longrightarrow> storeIds (serve pf s c)"
  by (cases c)
     (simp_all add: serve_def storeIds_guessHandler storeIds_advanceHandler storeIds_leaveHandler
        storeIds_pingHandler storeIds_roomGc)

lemma storeIds_serveAll: "storeIds s \<Longrightarrow> storeIds (serveAll pf s cs)"
  by (induction cs arbitrary: s) (simp_all add: serveAll_def storeIds_serve)

lemma sliceTo_subset: "set (sliceTo xs e) \<subseteq> set xs"
  by (auto simp: sliceTo_def Let_def dest: in_set_takeD)

lemma upsertQueue_ids:
  assumes "isUserId uid" and "\<forall>q \<in> set raw. isUserId (QueueEntry.userId q)"
  shows "\<forall>q \<in> set (upsertQueue uid uname now cutoff raw). isUserId (QueueEntry.userId q)"
proof (cases "findIndex (\<lambda>q. QueueEntry.userId q = uid) (filter (notStale cutoff) raw)")
  case None
  with assms show ?thesis by (auto simp: upsertQueue_def Let_def)
next
  case (Some i)
  let ?q = "filter (notStale cutoff) raw"
  let ?e = "(?q ! i)\<lparr>QueueEntry.lastSeen := now, QueueEntry.userName := uname\<rparr>"
  from findIndex_Some[OF Some] have eq: "QueueEntry.userId ?e = uid" by simp
  have "set (?q[i := ?e]) \<subseteq> insert ?e (set ?q)" by (rule set_update_subset_insert)
  with assms eq have "\<forall>q \<in> set (?q[i := ?e]). isUserId (QueueEntry.userId q)" by auto
  with Some show ?thesis by (simp add: upsertQueue_def Let_def)
qed

lemma matchPick_sets:
  assumes "tryMatchPickAtomic pf now v [] = (res, q')"
  shows "set q' \<subseteq> set v \<and> (\<forall>picked. res = Inr (Some picked) \<longrightarrow> set picked \<subseteq> set v)"
proof (cases "matchPickTxn (effMaxPlayers pf) (effMinPlayersToStart pf) (effQuickStartSeconds pf) now
             (of_int now - effInactiveKickSeconds pf * 1000) v")
  case (Return r)
  then have "r \<noteq> Inr (Some picked)" for picked
    by (auto simp: matchPickTxn_def Let_def split: if_splits list.splits)
  with assms Return show ?thesis by (auto simp: tryMatchPickAtomic_quiet)
next
  case (Write rem picked)
  let ?q = "filter (notStale (of_int now - effInactiveKickSeconds pf * 1000)) v"
  from matchPickTxn_Write[OF Write] have
    p: "picked = sliceTo ?q (min (effMaxPlayers pf) (of_nat (length ?q)))" and
    r: "rem = drop (length picked) ?q"
    by (simp_all add: Let_def)
  have "set picked \<subseteq> set v" unfolding p using sliceTo_subset[of ?q] by auto
  moreover have "set rem \<subseteq> set v" unfolding r using set_drop_subset[of "length picked" ?q] by auto
  ultimately show ?thesis using assms Write by (auto simp: tryMatchPickAtomic_quiet)
qed

lemma roomIds_newRoom:
  "\<forall>p \<in> set picked. isUserId (QueueEntry.userId p) \<Longrightarrow> roomIds (newRoom pf now rid w picked)"
  by (cases picked) (auto simp: roomIds_def newRoom_def Let_def)

lemma storeIds_queue:
  "storeIds s \<Longrightarrow> \<forall>q \<in> set q'. isUserId (QueueEntry.userId q) \<Longrightarrow> storeIds (s\<lparr>queue := q'\<rparr>)"
  by (simp add: storeIds_def)

lemma storeIds_maybeStart:
  assumes ok: "storeIds s" and m: "maybeStartMatchForPost pf now rid w s = Inr s'"
  shows "storeIds s'"
proof (cases "tryMatchPickAtomic pf now (queue s) []")
  case (Pair res q')
  from matchPick_sets[OF Pair] have
    sub: "set q' \<subseteq> set (queue s)" and
    psub: "\<And>picked. res = Inr (Some picked) \<Longrightarrow> set picked \<subseteq> set (queue s)" by blast+
  from ok sub have q: "storeIds (s\<lparr>queue := q'\<rparr>)"
    by (intro storeIds_queue) (auto simp: storeIds_def)
  show ?thesis
  proof (cases res)
    case (Inl e)
    with m Pair show ?thesis by (simp add: maybeStartMatchForPost_def)
  next
    case (Inr po)
    show ?thesis
    proof (cases po)
      case None
      with m Pair Inr q show ?thesis by (auto simp: maybeStartMatchForPost_def)
    next
      case (Some picked)
      show ?thesis
      proof (cases "picked = []")
        case True
        with m Pair Inr Some q show ?thesis by (auto simp: maybeStartMatchForPost_def)
      next
        case False
        with m Pair Inr Some have
          s': "s' = fold (\<lambda>p st. setUserRoom st (QueueEntry.userId p) (Some rid)) picked
                  (saveRoom (s\<lparr>queue := q'\<rparr>) (newRoom pf now rid w picked))"
          by (simp add: maybeStartMatchForPost_def Let_def)
        from psub[of picked] Inr Some ok have "\<forall>p \<in> set picked. isUserId (QueueEntry.userId p)"
          by (auto simp: storeIds_def)
        then have "roomIds (newRoom pf now rid w picked)" by (rule roomIds_newRoom)
        with q show ?thesis unfolding s'
          by (simp add: storeIds_fold_setUserRoom storeIds_saveRoom)
      qed
    qed
  qed
qed

lemma storeIds_joinQueue:
  assumes ok: "storeIds s" and u: "isUserId uid"
  shows "storeIds (snd (joinQueue pf now rid w s uid uname))"
proof -
  let ?s2 = "s\<lparr>queue := snd (queueUpsertAtomic uid uname now (effInactiveKickSeconds pf) (queue s) [])\<rparr>"
  have "\<forall>q \<in> set (snd (queueUpsertAtomic uid uname now (effInactiveKickSeconds pf) (queue s) [])).
          isUserId (QueueEntry.userId q)"
    using upsertQueue_ids[OF u, of "queue s"] ok
    by (simp add: queueUpsertAtomic_eq Let_def storeIds_def)
  with ok have s2: "storeIds ?s2" by (intro storeIds_queue)
  show ?thesis
  proof (cases "maybeStartMatchForPost pf now rid w ?s2")
    case (Inl e)
    with s2 show ?thesis by (simp add: joinQueue_def Let_def)
  next
    case (Inr s3)
    from storeIds_maybeStart[OF s2 Inr] have "storeIds s3" .
    with Inr show ?thesis by (simp add: joinQueue_def Let_def split: option.splits)
  qed
qed

lemma storeIds_joinHandler:
  assumes ok: "storeIds s" and u: "isUserId uid"
  shows "storeIds (snd (joinHandler pf now rid w s (Some uid) ctxName))"
proof -
  from u have ne: "uid \<noteq> []" by (auto simp: isUserId_def)
  have a: "storeIds (snd (joinQueue pf now rid w s uid uname))" for uname
    by (rule storeIds_joinQueue[OF ok u])
  have "storeIds (setUserRoom s uid None)" using ok by (simp add: storeIds_setUserRoom)
  from storeIds_joinQueue[OF this u]
  have b: "storeIds (snd (joinQueue pf now rid w (setUserRoom s uid None) uid uname))" for uname .
  show ?thesis
    using ne a b ok
    by (simp add: joinHandler_def ensureContext_def split: option.splits)
qed

lemma storeIds_sessionHandler: "storeIds s \<Longrightarrow> storeIds (snd (sessionHandler s ctxUser))"
  by (simp add: sessionHandler_def sessionFromQueue_def Let_def storeIds_setUserRoom
        split: option.splits)

lemma storeIds_emptyStore: "storeIds emptyStore"
  by (simp add: storeIds_def emptyStore_def)

lemma storeIds_broadcast:
  assumes "storeIds s" and "rooms s rid = Some room"
  shows "broadcastRoomState room = RoomStateMessage (publicState room ''not-a-viewer'') \<and>
         RoomPublicState.word (publicState room ''not-a-viewer'') = None"
proof -
  from storeIds_room[OF assms] have "\<forall>d. drawerUserId room = Some d \<longrightarrow> isUserId d"
    by (simp add: roomIds_def)
  with isUserId_not_sentinel have "drawerUserId room \<noteq> Some ''not-a-viewer''" by blast
  then show ?thesis by (simp add: broadcastRoomState_def publicState_word)
qed

text \<open>
  Claim C8. The broadcast is the state of the viewer \<open>not-a-viewer\<close>, which is not a
  platform identifier. In every store whose queue entries, room orders and drawers are
  platform identifiers, the broadcast snapshot of every room carries no word, only the
  mask, which has the word's length and no ASCII letter. The state the room-state query
  returns to a player carries the room's word if the player is the current drawer and no
  word otherwise. The stores the server reaches are such stores: the empty store is one,
  and every room request, every join and session request of a platform user and every
  match start keeps a store one. The rooms a handler broadcasts are rooms it has just
  saved.
\<close>

theorem broadcast_hides_word:
  "(\<forall>s rid room.
      storeIds s \<and> rooms s rid = Some room \<longrightarrow>
        (case broadcastRoomState room of
           RoomStateMessage st \<Rightarrow>
             RoomPublicState.word st = None \<and>
             wordMask st = (if truthyStr (word room) then map_option maskWord (word room) else None))) \<and>
   length (maskWord w) = length w \<and>
   (\<forall>c \<in> set (maskWord w). \<not> isAsciiLetter c) \<and>
   RoomPublicState.word (publicState room viewerId) =
     (if drawerUserId room = Some viewerId then word room else None) \<and>
   (word room \<noteq> None \<longrightarrow>
      (RoomPublicState.word (publicState room viewerId) = word room
         \<longleftrightarrow> drawerUserId room = Some viewerId)) \<and>
   (\<forall>s ctxUser ctxName rid st.
      roomStateHandler s ctxUser ctxName rid = Inr st \<longrightarrow>
        (\<exists>uid stored. ctxUser = Some uid \<and> rooms s rid = Some stored \<and>
           map_of (players stored) uid \<noteq> None \<and>
           RoomPublicState.word st = (if drawerUserId stored = Some uid then word stored else None))) \<and>
   storeIds emptyStore \<and>
   (\<forall>s. storeIds s \<longrightarrow>
      (\<forall>c. storeIds (serve pf s c)) \<and>
      (\<forall>now newRoomId nw uid ctxName.
         isUserId uid \<longrightarrow> storeIds (snd (joinHandler pf now newRoomId nw s (Some uid) ctxName))) \<and>
      (\<forall>ctxUser. storeIds (snd (sessionHandler s ctxUser))) \<and>
      (\<forall>now newRoomId nw s'.
         maybeStartMatchForPost pf now newRoomId nw s = Inr s' \<longrightarrow> storeIds s'))"
proof (intro conjI)
  show "\<forall>s rid room.
      storeIds s \<and> rooms s rid = Some room \<longrightarrow>
        (case broadcastRoomState room of
           RoomStateMessage st \<Rightarrow>
             RoomPublicState.word st = None \<and>
             wordMask st = (if truthyStr (word room) then map_option maskWord (word room) else None))"
  proof (intro allI impI)
    fix s :: store and rid room
    assume h: "storeIds s \<and> rooms s rid = Some room"
    then have "broadcastRoomState room = RoomStateMessage (publicState room ''not-a-viewer'') \<and>
         RoomPublicState.word (publicState room ''not-a-viewer'') = None"
      using storeIds_broadcast[of s rid room] by blast
    then show "case broadcastRoomState room of
           RoomStateMessage st \<Rightarrow>
             RoomPublicState.word st = None \<and>
             wordMask st = (if truthyStr (word room) then map_option maskWord (word room) else None)"
      by (simp add: publicState_wordMask)
  qed
  show "length (maskWord w) = length w" by (rule maskWord_length)
  show "\<forall>c \<in> set (maskWord w). \<not> isAsciiLetter c" using maskWord_no_letter by blast
  show "RoomPublicState.word (publicState room viewerId) =
     (if drawerUserId room = Some viewerId then word room else None)" by (rule publicState_word)
  show "word room \<noteq> None \<longrightarrow>
      (RoomPublicState.word (publicState room viewerId) = word room
         \<longleftrightarrow> drawerUserId room = Some viewerId)"
    by (auto simp: publicState_word)
  show "\<forall>s ctxUser ctxName rid st.
      roomStateHandler s ctxUser ctxName rid = Inr st \<longrightarrow>
        (\<exists>uid stored. ctxUser = Some uid \<and> rooms s rid = Some stored \<and>
           map_of (players stored) uid \<noteq> None \<and>
           RoomPublicState.word st = (if drawerUserId stored = Some uid then word stored else None))"
  proof (intro allI impI)
    fix s ctxUser ctxName rid st
    assume "roomStateHandler s ctxUser ctxName rid = Inr st"
    from roomStateHandler_Inr[OF this] obtain uid room where
      h: "ctxUser = Some uid" "rooms s rid = Some room" "map_of (players room) uid \<noteq> None"
         "st = publicState (withRoomDefaults room) uid" by blast
    have "RoomPublicState.word st = (if drawerUserId room = Some uid then word room else None)"
      unfolding h(4) publicState_word by (simp add: withRoomDefaults_def)
    with h show "\<exists>uid stored. ctxUser = Some uid \<and> rooms s rid = Some stored \<and>
           map_of (players stored) uid \<noteq> None \<and>
           RoomPublicState.word st = (if drawerUserId stored = Some uid then word stored else None)"
      by blast
  qed
  show "storeIds emptyStore" by (rule storeIds_emptyStore)
  show "\<forall>s. storeIds s \<longrightarrow>
      (\<forall>c. storeIds (serve pf s c)) \<and>
      (\<forall>now newRoomId nw uid ctxName.
         isUserId uid \<longrightarrow> storeIds (snd (joinHandler pf now newRoomId nw s (Some uid) ctxName))) \<and>
      (\<forall>ctxUser. storeIds (snd (sessionHandler s ctxUser))) \<and>
      (\<forall>now newRoomId nw s'.
         maybeStartMatchForPost pf now newRoomId nw s = Inr s' \<longrightarrow> storeIds s')"
    using storeIds_serve storeIds_joinHandler storeIds_sessionHandler storeIds_maybeStart
    by blast
qed

theorem broadcast_hides_word_witness:
  "storeIds exampleStore \<and> rooms exampleStore ''r1'' = Some exampleRoom \<and>
   broadcastRoomState exampleRoom = RoomStateMessage (publicState exampleRoom ''not-a-viewer'') \<and>
   RoomPublicState.word (publicState exampleRoom ''not-a-viewer'') = None \<and>
   wordMask (publicState exampleRoom ''not-a-viewer'') = Some ''_____'' \<and>
   word exampleRoom = Some ''tiger'' \<and>
   RoomPublicState.word (publicState exampleRoom ''t2_bob'') = Some ''tiger'' \<and>
   RoomPublicState.word (publicState exampleRoom ''t2_carol'') = None \<and>
   (\<exists>st. roomStateHandler exampleStore (Some ''t2_bob'') None ''r1'' = Inr st \<and>
         RoomPublicState.word st = Some ''tiger'') \<and>
   isUserId ''t2_erin'' \<and>
   storeIds (snd (joinHandler examplePlatform 100000 ''r2'' ''river'' exampleStore (Some ''t2_erin'') None)) \<and>
   storeIds (serve examplePlatform exampleStore
               (LeaveCall 100000 ''river'' (Some ''t2_bob'') (Some ''bob'') ''r1''))"
proof -
  have ids: "storeIds exampleStore"
    by (auto simp: storeIds_def roomIds_def exampleStore_def exampleRoom_def isUserId_def
             split: if_splits)
  have w: "word exampleRoom = Some ''tiger''" by code_simp
  have m: "(if truthyStr (word exampleRoom) then map_option maskWord (word exampleRoom) else None)
             = Some ''_____''" by code_simp
  have b: "broadcastRoomState exampleRoom = RoomStateMessage (publicState exampleRoom ''not-a-viewer'')"
    by (simp add: broadcastRoomState_def)
  have db: "drawerUserId exampleRoom = Some ''t2_bob''" by code_simp
  have r: "roomStateHandler exampleStore (Some ''t2_bob'') None ''r1''
             = Inr (publicState (withRoomDefaults exampleRoom) ''t2_bob'')" by code_simp
  have sr: "rooms exampleStore ''r1'' = Some exampleRoom" by code_simp
  have erin: "isUserId ''t2_erin''" by code_simp
  note inst = broadcast_hides_word[where w = "''tiger''" and room = exampleRoom and pf = examplePlatform]
  have pre: "storeIds exampleStore \<and> rooms exampleStore ''r1'' = Some exampleRoom"
    using ids sr by blast
  from inst[of "''t2_bob''", THEN conjunct1, rule_format, OF pre] have
    "case broadcastRoomState exampleRoom of
       RoomStateMessage st \<Rightarrow>
         RoomPublicState.word st = None \<and>
         wordMask st = (if truthyStr (word exampleRoom) then map_option maskWord (word exampleRoom) else None)" .
  with b have 1: "RoomPublicState.word (publicState exampleRoom ''not-a-viewer'') = None"
    "wordMask (publicState exampleRoom ''not-a-viewer'') = Some ''_____''"
    by (simp_all add: m)
  note rest = inst[THEN conjunct2, THEN conjunct2, THEN conjunct2]
  from rest[of "''t2_bob''", THEN conjunct1] w db
  have 2: "RoomPublicState.word (publicState exampleRoom ''t2_bob'') = Some ''tiger''"
    by simp
  from rest[of "''t2_carol''", THEN conjunct1] w db
  have 3: "RoomPublicState.word (publicState exampleRoom ''t2_carol'') = None"
    by simp
  note rest2 = rest[of "''t2_bob''", THEN conjunct2, THEN conjunct2]
  from rest2[THEN conjunct1, rule_format, OF r] obtain uid stored where
    q: "Some ''t2_bob'' = Some uid" "rooms exampleStore ''r1'' = Some stored"
       "RoomPublicState.word (publicState (withRoomDefaults exampleRoom) ''t2_bob'')
             = (if drawerUserId stored = Some uid then word stored else None)"
    by blast
  with sr db w have 4: "RoomPublicState.word (publicState (withRoomDefaults exampleRoom) ''t2_bob'') = Some ''tiger''"
    by simp
  note inv = rest2[THEN conjunct2, THEN conjunct2, rule_format, OF ids]
  from inv[THEN conjunct2, THEN conjunct1, rule_format, OF erin] have
    5: "storeIds (snd (joinHandler examplePlatform 100000 ''r2'' ''river'' exampleStore (Some ''t2_erin'') None))" .
  from inv[THEN conjunct1, rule_format] have
    6: "storeIds (serve examplePlatform exampleStore
               (LeaveCall 100000 ''river'' (Some ''t2_bob'') (Some ''bob'') ''r1''))" .
  have ex: "\<exists>st. roomStateHandler exampleStore (Some ''t2_bob'') None ''r1'' = Inr st \<and>
         RoomPublicState.word st = Some ''tiger''"
    using r 4 by simp
  from ids sr b w 1 2 3 ex erin 5 6 show ?thesis by blast
qed

end
